theory Spec2Isabelle
  imports Complex_Main
begin

section \<open>Numeric values\<close>

text \<open>
  The arrays of \<^verbatim>\<open>fitting_tinygp.py\<close> hold binary64 floating-point numbers (ticktack
  switches JAX to 64 bits; NumPy scalars and Python floats are binary64). A value is
  modelled as the real number it stores or as one of the three special values of IEEE
  arithmetic. The functions of this section are the exact operations on these extended
  reals; the machine operations of the next section round their results. Signed zeros
  are not distinguished.
\<close>

datatype fval = Fin real | PInf | NInf | NaN

fun fneg :: "fval \<Rightarrow> fval" where
  "fneg (Fin a) = Fin (- a)"
| "fneg PInf = NInf"
| "fneg NInf = PInf"
| "fneg NaN = NaN"

fun fadd :: "fval \<Rightarrow> fval \<Rightarrow> fval" where
  "fadd (Fin a) (Fin b) = Fin (a + b)"
| "fadd NaN y = NaN"
| "fadd x NaN = NaN"
| "fadd PInf NInf = NaN"
| "fadd NInf PInf = NaN"
| "fadd PInf y = PInf"
| "fadd x PInf = PInf"
| "fadd NInf y = NInf"
| "fadd x NInf = NInf"

definition fsub :: "fval \<Rightarrow> fval \<Rightarrow> fval" where
  "fsub x y = fadd x (fneg y)"

fun fmul :: "fval \<Rightarrow> fval \<Rightarrow> fval" where
  "fmul (Fin a) (Fin b) = Fin (a * b)"
| "fmul NaN y = NaN"
| "fmul x NaN = NaN"
| "fmul PInf (Fin b) = (if b = 0 then NaN else if 0 < b then PInf else NInf)"
| "fmul NInf (Fin b) = (if b = 0 then NaN else if 0 < b then NInf else PInf)"
| "fmul (Fin a) PInf = (if a = 0 then NaN else if 0 < a then PInf else NInf)"
| "fmul (Fin a) NInf = (if a = 0 then NaN else if 0 < a then NInf else PInf)"
| "fmul PInf PInf = PInf"
| "fmul PInf NInf = NInf"
| "fmul NInf PInf = NInf"
| "fmul NInf NInf = PInf"

fun fdiv :: "fval \<Rightarrow> fval \<Rightarrow> fval" where
  "fdiv (Fin a) (Fin b) =
     (if b \<noteq> 0 then Fin (a / b) else if a = 0 then NaN else if 0 < a then PInf else NInf)"
| "fdiv NaN y = NaN"
| "fdiv x NaN = NaN"
| "fdiv (Fin a) PInf = Fin 0"
| "fdiv (Fin a) NInf = Fin 0"
| "fdiv PInf (Fin b) = (if 0 \<le> b then PInf else NInf)"
| "fdiv NInf (Fin b) = (if 0 \<le> b then NInf else PInf)"
| "fdiv PInf PInf = NaN"
| "fdiv PInf NInf = NaN"
| "fdiv NInf PInf = NaN"
| "fdiv NInf NInf = NaN"

text \<open>\<^verbatim>\<open>x <= y\<close>: every comparison with NaN is false.\<close>

fun fle :: "fval \<Rightarrow> fval \<Rightarrow> bool" where
  "fle (Fin a) (Fin b) = (a \<le> b)"
| "fle NaN y = False"
| "fle x NaN = False"
| "fle NInf y = True"
| "fle x PInf = True"
| "fle PInf y = False"
| "fle x NInf = False"

text \<open>\<^verbatim>\<open>x > y\<close>, used to say that a parameter is strictly positive.\<close>

fun fgt :: "fval \<Rightarrow> fval \<Rightarrow> bool" where
  "fgt (Fin a) (Fin b) = (a > b)"
| "fgt NaN y = False"
| "fgt x NaN = False"
| "fgt PInf PInf = False"
| "fgt PInf y = True"
| "fgt x PInf = False"
| "fgt x NInf = (x \<noteq> NInf)"
| "fgt NInf y = False"

text \<open>The exact sum of a list, accumulated from the left; the sum of an empty list is 0.\<close>

definition fsum :: "fval list \<Rightarrow> fval" where
  "fsum xs = foldl fadd (Fin 0) xs"

section \<open>Rounding\<close>

text \<open>
  Rounding to the nearest integer, ties to the even one.
\<close>

definition rne :: "real \<Rightarrow> int" where
  "rne y =
     (let f = \<lfloor>y\<rfloor>
      in if y - of_int f < 1 / 2 then f
         else if 1 / 2 < y - of_int f then f + 1
         else if even f then f else f + 1)"

text \<open>
  Rounding of a real number to binary64, to nearest with ties to even: the result is a
  multiple of \<open>2\<^sup>e\<close>, where \<open>e\<close> is the exponent of the last of the 53 significand bits
  (never below -1074, the spacing of the subnormal numbers). The exponent is not bounded
  from above here; overflow is added by \<open>fround\<close>.
\<close>

definition fl :: "real \<Rightarrow> real" where
  "fl x =
     (if x = 0 then 0
      else let e = max \<lfloor>log 2 \<bar>x\<bar>\<rfloor> (- 1022) - 52
           in of_int (rne (x / 2 powr of_int e)) * 2 powr of_int e)"

text \<open>The result of a machine operation: the exact result rounded, infinite on overflow.\<close>

definition fround :: "fval \<Rightarrow> fval" where
  "fround v =
     (case v of
        Fin r \<Rightarrow> if 2 ^ 1024 \<le> \<bar>fl r\<bar> then (if 0 < r then PInf else NInf) else Fin (fl r)
      | _ \<Rightarrow> v)"

definition radd :: "fval \<Rightarrow> fval \<Rightarrow> fval" where
  "radd x y = fround (fadd x y)"

definition rsub :: "fval \<Rightarrow> fval \<Rightarrow> fval" where
  "rsub x y = fround (fsub x y)"

definition rmul :: "fval \<Rightarrow> fval \<Rightarrow> fval" where
  "rmul x y = fround (fmul x y)"

definition rdiv :: "fval \<Rightarrow> fval \<Rightarrow> fval" where
  "rdiv x y = fround (fdiv x y)"

section \<open>Errors and array primitives\<close>

text \<open>
  Observation times (years) are finite floating-point numbers, modelled as reals; sums
  and differences of years are rounded with \<open>fl\<close>.
\<close>

datatype error = ValueError | IndexError | TypeError | AttributeError

text \<open>\<^verbatim>\<open>np.nanmin\<close> and \<^verbatim>\<open>np.nanmax\<close>: an empty array has no minimum, NumPy raises.\<close>

definition nanmin :: "real list \<Rightarrow> error + real" where
  "nanmin xs = (case xs of [] \<Rightarrow> Inl ValueError | x # r \<Rightarrow> Inr (fold min r x))"

definition nanmax :: "real list \<Rightarrow> error + real" where
  "nanmax xs = (case xs of [] \<Rightarrow> Inl ValueError | x # r \<Rightarrow> Inr (fold max r x))"

text \<open>
  \<^verbatim>\<open>jnp.linspace(a, b, num)\<close>: a negative count is refused, otherwise \<open>num\<close> points
  from \<open>a\<close> in steps of \<open>(b - a) / (num - 1)\<close>, the last one being \<open>b\<close> itself. The
  interior points are rounded as in NumPy's \<^verbatim>\<open>linspace\<close>; the fitter only hands the
  grid to the box model, and the properties below depend on its length alone.
\<close>

definition linspace :: "real \<Rightarrow> real \<Rightarrow> int \<Rightarrow> error + real list" where
  "linspace a b num =
     (if num < 0 then Inl ValueError
      else if num = 1 then Inr [a]
      else
        (let d = fl (fl (b - a) / real (nat num - 1))
         in Inr (map (\<lambda>i. if i = nat num - 1 then b else fl (a + fl (real i * d)))
                   [0..<nat num])))"

text \<open>
  \<^verbatim>\<open>jnp.arange(start, stop, step)\<close> on concrete floating-point arguments is NumPy's
  \<^verbatim>\<open>arange\<close>. Its length is the ceiling of the floating-point quotient
  \<open>(stop - start) / step\<close> (no points when that is not positive); a zero step, or a
  length outside the index range, raises. The first two points are \<open>start\<close> and
  \<open>start + step\<close>; the others are \<open>start + i * delta\<close>, where \<open>delta\<close> is the
  difference of the first two. Memory is taken as unbounded.
\<close>

definition arange :: "real \<Rightarrow> real \<Rightarrow> real \<Rightarrow> error + real list" where
  "arange start stop step =
     (if step = 0 then Inl ValueError
      else
        (let v = fl (fl (stop - start) / step);
             delta = fl (fl (start + step) - start)
         in if \<lceil>v\<rceil> < - (2 ^ 63) \<or> 2 ^ 63 \<le> \<lceil>v\<rceil> then Inl ValueError
            else Inr (map (\<lambda>i. if i = 0 then start
                               else if i = 1 then fl (start + step)
                               else fl (start + fl (real i * delta)))
                      [0..<nat \<lceil>v\<rceil>])))"

text \<open>\<^verbatim>\<open>jnp.in1d(ar1, ar2)\<close>: for each entry of \<open>ar1\<close>, whether it occurs in \<open>ar2\<close>.\<close>

definition in1d :: "real list \<Rightarrow> real list \<Rightarrow> bool list" where
  "in1d ar1 ar2 = map (\<lambda>a. a \<in> set ar2) ar1"

text \<open>The slice \<^verbatim>\<open>xs[:k]\<close>; a negative \<open>k\<close> counts from the end.\<close>

definition slice_to :: "int \<Rightarrow> 'a list \<Rightarrow> 'a list" where
  "slice_to k xs = (if 0 \<le> k then take (nat k) xs else take (length xs - nat (- k)) xs)"

text \<open>
  Indexing with a boolean array, \<^verbatim>\<open>d[mask]\<close>: the shapes must agree, the entries
  under a True are kept in order.
\<close>

definition bool_index :: "'a list \<Rightarrow> bool list \<Rightarrow> error + 'a list" where
  "bool_index d m =
     (if length d \<noteq> length m then Inl IndexError
      else Inr (map fst (filter snd (zip d m))))"

text \<open>
  An elementwise operation on two one-dimensional arrays with NumPy broadcasting:
  equal lengths pair up, a length-one array is stretched, anything else is a shape error.
\<close>

definition broadcast2 :: "(fval \<Rightarrow> fval \<Rightarrow> fval) \<Rightarrow> fval list \<Rightarrow> fval list \<Rightarrow> error + fval list" where
  "broadcast2 f xs ys =
     (if length xs = length ys then Inr (map (\<lambda>(x, y). f x y) (zip xs ys))
      else if length xs = 1 then Inr (map (\<lambda>y. f (hd xs) y) ys)
      else if length ys = 1 then Inr (map (\<lambda>x. f x (hd ys)) xs)
      else Inl TypeError)"

section \<open>The fitter's state\<close>

text \<open>A Python value as it can appear in the keyword arguments of \<^verbatim>\<open>prepare_function\<close>.\<close>

datatype pyval = VNone | VBool bool | VNum real | VStr string | VFun nat

text \<open>The callable stored in \<^verbatim>\<open>self.production\<close>: one of the fitter's own methods or the caller's \<open>f\<close>.\<close>

datatype prodfn =
    miyake_event_fixed_solar
  | miyake_event_flexible_solar
  | interp_linear
  | interp_gp
  | custom pyval

text \<open>
  The external collaborators, taken as parameters: the two entry points of the carbon box
  model that the fitter calls (\<^verbatim>\<open>cbm.run\<close>, returning the trajectory, and
  \<^verbatim>\<open>cbm.run_D_14_C_values\<close>), the steady state computed in \<^verbatim>\<open>__init__\<close>,
  tinygp's \<^verbatim>\<open>GaussianProcess(k, X, mean).condition(y)\<close>, and the reduction
  \<^verbatim>\<open>jnp.sum\<close> of an array of rounded values, whose order of accumulation is the
  compiler's. A production callable is handed over as its tag together with the
  control-point times it reads from \<open>self\<close>.
\<close>

record model =
  cbm_run :: "real list \<Rightarrow> prodfn \<times> real list option \<Rightarrow> fval list \<Rightarrow> fval list \<Rightarrow> fval list list"
  cbm_run_D_14_C_values ::
    "real list \<Rightarrow> int \<Rightarrow> prodfn \<times> real list option \<Rightarrow> fval list \<Rightarrow> fval list \<Rightarrow> fval list \<Rightarrow> fval list"
  steady_state_production :: fval
  steady_state_y0 :: "fval list"
  gp_condition :: "real list \<Rightarrow> fval \<Rightarrow> fval list \<Rightarrow> fval"
  jnp_sum :: "fval list \<Rightarrow> fval"

text \<open>\<^verbatim>\<open>jnp.mean\<close>: the sum divided by the number of entries (NaN on an empty array).\<close>

definition jnp_mean :: "model \<Rightarrow> fval list \<Rightarrow> fval" where
  "jnp_mean m xs = rdiv (jnp_sum m xs) (Fin (real (length xs)))"

text \<open>
  The attributes that \<^verbatim>\<open>load_data\<close> assigns, and the two that \<^verbatim>\<open>prepare_function\<close>
  assigns (\<open>None\<close> while the attribute does not exist).
\<close>

record CarbonFitter =
  time_data :: "real list"
  d14c_data :: "fval list"
  d14c_data_error :: "fval list"
  start :: real
  end_t :: real
  resolution :: int
  burn_in_time :: "real list"
  time_grid_fine :: "real list"
  time_oversample :: int
  offset :: fval
  annual :: "real list"
  mask_arr :: "bool list"
  production :: "prodfn option"
  control_points_time :: "real list option"

section \<open>load_data\<close>

text \<open>
  The table read from the file is a list of rows (year, d14c, sig_d14c), so the three
  columns have one length.
\<close>

definition load_data ::
  "model \<Rightarrow> (real \<times> fval \<times> fval) list \<Rightarrow> int \<Rightarrow> real \<Rightarrow> int \<Rightarrow> int \<Rightarrow> error + CarbonFitter" where
  "load_data m data res fine_grid oversample num_offset =
     (let td = map fst data;
          dd = map (\<lambda>r. fst (snd r)) data;
          de = map (\<lambda>r. snd (snd r)) data
      in case nanmin td of Inl e \<Rightarrow> Inl e | Inr st \<Rightarrow>
         (case nanmax td of Inl e \<Rightarrow> Inl e | Inr en \<Rightarrow>
         (case linspace (fl (st - 1000)) st res of Inl e \<Rightarrow> Inl e | Inr burn \<Rightarrow>
         (case arange st en fine_grid of Inl e \<Rightarrow> Inl e | Inr fine \<Rightarrow>
         (case arange st (fl (en + 1)) 1 of Inl e \<Rightarrow> Inl e | Inr ann \<Rightarrow>
            Inr \<lparr> time_data = td, d14c_data = dd, d14c_data_error = de,
                  start = st, end_t = en, resolution = res,
                  burn_in_time = burn, time_grid_fine = fine,
                  time_oversample = oversample,
                  offset = jnp_mean m (slice_to num_offset dd),
                  annual = ann,
                  mask_arr = butlast (in1d ann td),
                  production = None, control_points_time = None \<rparr>)))))"

section \<open>prepare_function\<close>

text \<open>The number a Python value contributes to \<^verbatim>\<open>float + v\<close>; other values raise TypeError.\<close>

fun num_of :: "pyval \<Rightarrow> real option" where
  "num_of (VNum r) = Some r"
| "num_of (VBool b) = Some (if b then 1 else 0)"
| "num_of v = None"

text \<open>
  The loop \<^verbatim>\<open>for i in range(n)\<close> over the observation times, run on the list of
  indices; \<open>cps\<close> is \<^verbatim>\<open>control_points_time\<close>, never empty.
\<close>

fun cp_loop :: "real list \<Rightarrow> pyval \<Rightarrow> pyval \<Rightarrow> nat list \<Rightarrow> real list \<Rightarrow> error + real list" where
  "cp_loop td dense_years gap_years [] cps = Inr cps"
| "cp_loop td dense_years gap_years (i # is) cps =
     (if fl (td ! i - last cps) \<le> 2 \<and> fl (td ! i - last cps) > 0 then
        (case num_of dense_years of
           None \<Rightarrow> Inl TypeError
         | Some d \<Rightarrow> cp_loop td dense_years gap_years is (cps @ [fl (td ! i + d)]))
      else
        (case num_of gap_years of
           None \<Rightarrow> Inl TypeError
         | Some g \<Rightarrow>
             if td ! i \<ge> fl (last cps + g)
             then cp_loop td dense_years gap_years is (cps @ [td ! i])
             else cp_loop td dense_years gap_years is cps))"

text \<open>\<^verbatim>\<open>kwargs[key]\<close> inside \<^verbatim>\<open>try\<close>, with the value assigned in the \<^verbatim>\<open>except\<close> branch.\<close>

definition kw :: "(string \<rightharpoonup> pyval) \<Rightarrow> string \<Rightarrow> pyval \<Rightarrow> pyval" where
  "kw kwargs key dflt = (case kwargs key of None \<Rightarrow> dflt | Some v \<Rightarrow> v)"

text \<open>The final test of \<^verbatim>\<open>prepare_function\<close>: no production chosen means the fixed-solar burst model.\<close>

definition or_default :: "prodfn option \<Rightarrow> prodfn" where
  "or_default p = (case p of None \<Rightarrow> miyake_event_fixed_solar | Some q \<Rightarrow> q)"

definition prepare_function :: "CarbonFitter \<Rightarrow> (string \<rightharpoonup> pyval) \<Rightarrow> error + CarbonFitter" where
  "prepare_function self kwargs =
     (let custom_function =
            (if kwargs ''custom_function'' \<noteq> None \<and> kwargs ''f'' \<noteq> None
             then kw kwargs ''custom_function'' (VBool False) else VBool False);
          f = (if kwargs ''custom_function'' \<noteq> None \<and> kwargs ''f'' \<noteq> None
               then kw kwargs ''f'' VNone else VNone);
          use_control_points = kw kwargs ''use_control_points'' (VBool False);
          interp = kw kwargs ''interp'' (VStr ''linear'');
          dense_years = kw kwargs ''dense_years'' (VNum 3);
          gap_years = kw kwargs ''gap_years'' (VNum 5);
          production_kw = kw kwargs ''production'' VNone;
          fit_solar_params = kw kwargs ''fit_solar'' (VBool False);
          p1 = (if production_kw = VStr ''miyake''
                then (if fit_solar_params = VBool True
                      then Some miyake_event_flexible_solar
                      else Some miyake_event_fixed_solar)
                else None);
          p2 = (if custom_function = VBool True \<and> f \<noteq> VNone then Some (custom f) else p1)
      in if use_control_points = VBool True then
           (if interp = VStr ''linear'' then
              (case cp_loop (time_data self) dense_years gap_years
                      [0..<length (butlast (time_data self))] [fl (start self - 1), start self] of
                 Inl e \<Rightarrow> Inl e
               | Inr cps \<Rightarrow>
                   Inr (self\<lparr> control_points_time := Some (filter (\<lambda>c. c \<le> end_t self) cps),
                              production := Some interp_linear \<rparr>))
            else if interp = VStr ''gp'' then
              Inr (self\<lparr> control_points_time := Some (annual self),
                         production := Some interp_gp \<rparr>)
            else Inr (self\<lparr> production := Some (or_default p2) \<rparr>))
         else Inr (self\<lparr> production := Some (or_default p2) \<rparr>))"

section \<open>Forward simulation\<close>

text \<open>
  \<^verbatim>\<open>CarbonFitter.run\<close> and \<^verbatim>\<open>CarbonFitter.run_D_14_C_values\<close> pass
  \<^verbatim>\<open>self.production\<close> to the box model; before \<^verbatim>\<open>prepare_function\<close> the
  attribute does not exist.
\<close>

definition run :: "model \<Rightarrow> CarbonFitter \<Rightarrow> real list \<Rightarrow> fval list \<Rightarrow> fval list \<Rightarrow> error + fval list list" where
  "run m self time_values y0 params =
     (case production self of
        None \<Rightarrow> Inl AttributeError
      | Some p \<Rightarrow> Inr (cbm_run m time_values (p, control_points_time self) params y0))"

definition run_D_14_C_values ::
  "model \<Rightarrow> CarbonFitter \<Rightarrow> real list \<Rightarrow> int \<Rightarrow> fval list \<Rightarrow> fval list \<Rightarrow> error + fval list" where
  "run_D_14_C_values m self time_out oversample y0 params =
     (case production self of
        None \<Rightarrow> Inl AttributeError
      | Some p \<Rightarrow>
          Inr (cbm_run_D_14_C_values m time_out oversample (p, control_points_time self)
                 params y0 (steady_state_y0 m)))"

text \<open>\<^verbatim>\<open>dc14\<close>: burn-in, the annual run from the last burn-in state, the mask, the offset.\<close>

definition dc14 :: "model \<Rightarrow> CarbonFitter \<Rightarrow> fval list \<Rightarrow> error + fval list" where
  "dc14 m self params =
     (case run m self (burn_in_time self) (steady_state_y0 m) params of
        Inl e \<Rightarrow> Inl e
      | Inr burn_in \<Rightarrow>
          if burn_in = [] then Inl IndexError
          else
            (case run_D_14_C_values m self (annual self) (time_oversample self)
                    (last burn_in) params of
               Inl e \<Rightarrow> Inl e
             | Inr d \<Rightarrow>
                 (case bool_index d (mask_arr self) of
                    Inl e \<Rightarrow> Inl e
                  | Inr dm \<Rightarrow> Inr (map (\<lambda>x. radd x (offset self)) dm))))"

section \<open>Likelihood, prior and losses\<close>

text \<open>
  \<^verbatim>\<open>jnp.sum(((self.d14c_data[:-1] - d_14_c) / self.d14c_data_error[:-1]) ** 2)\<close>,
  the expression shared by \<^verbatim>\<open>log_like\<close>, \<^verbatim>\<open>loss_chi2\<close> and
  \<^verbatim>\<open>loss_chi2_avg\<close>; the square is the rounded product of the quotient with itself.
\<close>

definition chi2_sum :: "model \<Rightarrow> CarbonFitter \<Rightarrow> fval list \<Rightarrow> error + fval" where
  "chi2_sum m self d_14_c =
     (case broadcast2 rsub (butlast (d14c_data self)) d_14_c of
        Inl e \<Rightarrow> Inl e
      | Inr diff \<Rightarrow>
          (case broadcast2 rdiv diff (butlast (d14c_data_error self)) of
             Inl e \<Rightarrow> Inl e
           | Inr q \<Rightarrow> Inr (jnp_sum m (map (\<lambda>x. rmul x x) q))))"

definition log_like :: "model \<Rightarrow> CarbonFitter \<Rightarrow> fval list \<Rightarrow> error + fval" where
  "log_like m self params =
     (case dc14 m self params of
        Inl e \<Rightarrow> Inl e
      | Inr d_14_c \<Rightarrow>
          (case chi2_sum m self d_14_c of
             Inl e \<Rightarrow> Inl e
           | Inr chi2 \<Rightarrow> Inr (rmul (Fin (- (1 / 2))) chi2)))"

text \<open>
  \<^verbatim>\<open>log_prior\<close>: the summands are 0 and minus infinity only, so every order of
  accumulation gives the same sum and nothing is rounded.
\<close>

definition log_prior :: "fval list \<Rightarrow> fval" where
  "log_prior params = fsum (map (\<lambda>p. if fle p (Fin 0) then NInf else Fin 0) params)"

definition log_prob :: "model \<Rightarrow> CarbonFitter \<Rightarrow> fval list \<Rightarrow> error + fval" where
  "log_prob m self params =
     (let lp = log_prior params
      in case log_like m self params of
           Inl e \<Rightarrow> Inl e
         | Inr pos \<Rightarrow> Inr (radd lp pos))"

definition loss_chi2 :: "model \<Rightarrow> CarbonFitter \<Rightarrow> fval list \<Rightarrow> error + fval" where
  "loss_chi2 m self params =
     (case dc14 m self params of
        Inl e \<Rightarrow> Inl e
      | Inr d_14_c \<Rightarrow>
          (case chi2_sum m self d_14_c of
             Inl e \<Rightarrow> Inl e
           | Inr chi2 \<Rightarrow> Inr (rmul (Fin (1 / 2)) chi2)))"





section \<open>Call sequences, reference formulations and sample inputs\<close>

text \<open>\<^verbatim>\<open>cf.load_data(...)\<close> followed by \<^verbatim>\<open>cf.prepare_function(**kwargs)\<close>.\<close>

definition load_and_prepare ::
  "model \<Rightarrow> (real \<times> fval \<times> fval) list \<Rightarrow> int \<Rightarrow> real \<Rightarrow> int \<Rightarrow> int \<Rightarrow> (string \<rightharpoonup> pyval) \<Rightarrow> error + CarbonFitter" where
  "load_and_prepare m data res fine_grid oversample num_offset kwargs =
     (case load_data m data res fine_grid oversample num_offset of
        Inl e \<Rightarrow> Inl e
      | Inr s \<Rightarrow> prepare_function s kwargs)"

text \<open>
  The spacing rule in the words of the specification, over the real numbers: walk the
  given times in order; a gap in (0, 2] to the last accepted point inserts the time plus
  \<open>dense\<close>, otherwise a gap of at least \<open>gap\<close> inserts the time itself.
\<close>

fun spacing_rule :: "real \<Rightarrow> real \<Rightarrow> real list \<Rightarrow> real list \<Rightarrow> real list" where
  "spacing_rule dense gap [] cps = cps"
| "spacing_rule dense gap (t # ts) cps =
     (if 0 < t - last cps \<and> t - last cps \<le> 2 then spacing_rule dense gap ts (cps @ [t + dense])
      else if gap \<le> t - last cps then spacing_rule dense gap ts (cps @ [t])
      else spacing_rule dense gap ts cps)"

text \<open>
  The chi-square loss in the words of the specification, in machine arithmetic: half the
  sum, over the observation points but the last, of the squared normalised residual.
\<close>

definition chi2_formula :: "model \<Rightarrow> fval list \<Rightarrow> fval list \<Rightarrow> fval list \<Rightarrow> fval" where
  "chi2_formula m observed uncertainty simulated =
     rmul (Fin (1 / 2))
       (jnp_sum m
          (map (\<lambda>i. rmul (rdiv (rsub (observed ! i) (simulated ! i)) (uncertainty ! i))
                         (rdiv (rsub (observed ! i) (simulated ! i)) (uncertainty ! i)))
               [0..<length observed - 1]))"

text \<open>
  What the fitter relies on from the box model: \<^verbatim>\<open>cbm.run\<close> returns one state per
  time value and \<^verbatim>\<open>cbm.run_D_14_C_values\<close> one value per interval of its output grid.
\<close>

definition cbm_shapes :: "model \<Rightarrow> bool" where
  "cbm_shapes m \<longleftrightarrow>
     (\<forall>ts p ps y0. length (cbm_run m ts p ps y0) = length ts) \<and>
     (\<forall>ts os p ps y0 ss. length (cbm_run_D_14_C_values m ts os p ps y0 ss) = length ts - 1)"

text \<open>
  Whole numbers of magnitude below \<open>2\<^sup>5\<^sup>1\<close>: on such years (and year counts) the
  additions and subtractions of the grid and control-point computations are exact.
\<close>

definition whole_years :: "real list \<Rightarrow> bool" where
  "whole_years ts \<longleftrightarrow> (\<forall>t \<in> set ts. t \<in> \<int> \<and> \<bar>t\<bar> < 2 ^ 51)"

text \<open>
  A stand-in box model with the shapes above: the state stays at \<open>y0\<close>, every annual
  value is the sum of the parameters; its Gaussian-process term adds the mean to the sum
  of the control values; its \<^verbatim>\<open>jnp.sum\<close> accumulates from the left.
\<close>

definition toy_model :: model where
  "toy_model =
     \<lparr> cbm_run = (\<lambda>ts p ps y0. map (\<lambda>t. y0) ts),
       cbm_run_D_14_C_values = (\<lambda>ts os p ps y0 ss. map (\<lambda>t. fsum ps) (butlast ts)),
       steady_state_production = Fin 2,
       steady_state_y0 = [Fin 1],
       gp_condition = (\<lambda>cpt mu y. fadd mu (fsum y)),
       jnp_sum = foldl radd (Fin 0) \<rparr>"

text \<open>
  Sample series: annual with a gap, with a repeated year, with a year between two grid
  points, and the one of the spacing example.
\<close>

definition series_gap :: "(real \<times> fval \<times> fval) list" where
  "series_gap = [(100, Fin 1, Fin 1), (101, Fin 2, Fin 2), (103, Fin 3, Fin 1)]"

definition series_dup :: "(real \<times> fval \<times> fval) list" where
  "series_dup = [(100, Fin 1, Fin 1), (100, Fin 2, Fin 1), (101, Fin 3, Fin 1)]"


definition series_spacing :: "(real \<times> fval \<times> fval) list" where
  "series_spacing = [(100, Fin 1, Fin 1), (101, Fin 2, Fin 1), (110, Fin 3, Fin 1), (200, Fin 4, Fin 1)]"

definition kwargs_spacing :: "string \<rightharpoonup> pyval" where
  "kwargs_spacing =
     [''use_control_points'' \<mapsto> VBool True, ''interp'' \<mapsto> VStr ''linear'',
      ''dense_years'' \<mapsto> VNum 3, ''gap_years'' \<mapsto> VNum 5]"

definition kwargs_gp :: "string \<rightharpoonup> pyval" where
  "kwargs_gp = [''use_control_points'' \<mapsto> VBool True, ''interp'' \<mapsto> VStr ''gp'']"

definition kwargs_custom :: "string \<rightharpoonup> pyval" where
  "kwargs_custom =
     [''custom_function'' \<mapsto> VBool True, ''f'' \<mapsto> VFun 0, ''production'' \<mapsto> VStr ''miyake'']"

definition kwargs_cubic :: "string \<rightharpoonup> pyval" where
  "kwargs_cubic =
     [''use_control_points'' \<mapsto> VBool True, ''interp'' \<mapsto> VStr ''cubic'',
      ''custom_function'' \<mapsto> VBool True, ''f'' \<mapsto> VFun 0]"

text \<open>The fitter that \<^verbatim>\<open>load_data\<close> builds from \<open>series_gap\<close>, and the same after a GP \<^verbatim>\<open>prepare_function\<close>.\<close>

definition loaded_gap :: CarbonFitter where
  "loaded_gap =
     \<lparr> time_data = [100, 101, 103], d14c_data = [Fin 1, Fin 2, Fin 3],
       d14c_data_error = [Fin 1, Fin 2, Fin 1], start = 100, end_t = 103, resolution = 3,
       burn_in_time = [- 900, - 400, 100], time_grid_fine = [100, 101, 102],
       time_oversample = 10, offset = Fin 2, annual = [100, 101, 102, 103],
       mask_arr = [True, True, False], production = None, control_points_time = None \<rparr>"

definition fitter_gap :: CarbonFitter where
  "fitter_gap =
     loaded_gap\<lparr> control_points_time := Some [100, 101, 102, 103], production := Some interp_gp \<rparr>"

section \<open>Rounding of exactly representable numbers\<close>

lemma rne_of_int: "rne (of_int n) = n"
  by (simp add: rne_def)

lemma rne_minus: "rne (- y) = - rne y"
proof (cases "y \<in> \<int>")
  case True
  then obtain n where n: "y = of_int n" by (rule Ints_cases)
  have "rne (of_int (- n)) = - n" by (rule rne_of_int)
  then show ?thesis using n by (simp add: rne_of_int)
next
  case False
  then have "y \<noteq> of_int \<lfloor>y\<rfloor>" by (metis Ints_of_int)
  then have "\<lceil>y\<rceil> = \<lfloor>y\<rfloor> + 1" by (simp add: ceiling_altdef)
  then have f: "\<lfloor>- y\<rfloor> = - \<lfloor>y\<rfloor> - 1" by (simp add: ceiling_def)
  have d: "- y - of_int (- \<lfloor>y\<rfloor> - 1) = 1 - (y - of_int \<lfloor>y\<rfloor>)" by simp
  have pos: "0 < y - of_int \<lfloor>y\<rfloor>" using \<open>y \<noteq> of_int \<lfloor>y\<rfloor>\<close> of_int_floor_le [of y] by linarith
  show ?thesis unfolding rne_def Let_def f d using pos by auto
qed

lemma rne_error: "\<bar>of_int (rne z) - z\<bar> \<le> 1 / 2"
proof -
  have "of_int \<lfloor>z\<rfloor> \<le> z" "z < of_int \<lfloor>z\<rfloor> + 1" by linarith+
  then show ?thesis unfolding rne_def Let_def by auto
qed

lemma rne_nonpos: "z \<le> 0 \<Longrightarrow> rne z \<le> 0"
proof -
  assume z: "z \<le> 0"
  have a: "of_int \<lfloor>z\<rfloor> \<le> z" "z < of_int \<lfloor>z\<rfloor> + 1" by linarith+
  have "\<lfloor>z\<rfloor> \<le> 0" using z by linarith
  moreover have "\<lfloor>z\<rfloor> + 1 \<le> 0" if "1 / 2 \<le> z - of_int \<lfloor>z\<rfloor>"
  proof -
    have "of_int \<lfloor>z\<rfloor> < (0::real)" using that z by linarith
    then have "\<lfloor>z\<rfloor> < 0" by simp
    then show ?thesis by linarith
  qed
  ultimately show ?thesis unfolding rne_def Let_def by auto
qed

lemma fl_zero: "fl 0 = 0"
  by (simp add: fl_def)

lemma fl_minus: "fl (- x) = - fl x"
  by (simp add: fl_def Let_def rne_minus)

lemma fl_dyadic:
  assumes m: "\<bar>m\<bar> < 2 ^ 53" and k: "k \<le> 1074"
  shows "fl (of_int m / 2 ^ k) = of_int m / 2 ^ k"
proof (cases "m = 0")
  case True
  then show ?thesis by (simp add: fl_zero)
next
  case False
  let ?x = "of_int m / 2 ^ k :: real"
  have x0: "?x \<noteq> 0" using False by simp
  define e where "e = max \<lfloor>log 2 \<bar>?x\<bar>\<rfloor> (- 1022) - 52"
  have "\<bar>real_of_int m\<bar> < 2 ^ 53" using m by (metis of_int_abs of_int_less_numeral_power_cancel_iff)
  then have "\<bar>?x\<bar> < 2 ^ 53 / 2 ^ k" by (simp add: divide_strict_right_mono)
  also have "(2::real) ^ 53 / 2 ^ k = 2 powr (of_int (53 - int k))"
    by (simp add: powr_diff powr_realpow)
  finally have "log 2 \<bar>?x\<bar> < of_int (53 - int k)"
    using x0 by (subst log_less_iff) auto
  then have "\<lfloor>log 2 \<bar>?x\<bar>\<rfloor> < 53 - int k" by (simp only: floor_less_iff)
  then have "e \<le> - int k" using k by (simp add: e_def)
  then obtain j :: nat where j: "int j = - int k - e"
    by (metis diff_ge_0_iff_ge nonneg_int_cases)
  have e': "e = - int (k + j)" using j by simp
  have "(2::real) powr (- real (k + j)) = 1 / 2 ^ (k + j)"
    by (subst powr_minus_divide, subst powr_realpow) auto
  then have p: "2 powr of_int e = 1 / (2::real) ^ (k + j)"
    unfolding e' by simp
  have "?x / 2 powr of_int e = of_int (m * 2 ^ j)"
    unfolding p by (simp add: power_add)
  then have "rne (?x / 2 powr of_int e) = m * 2 ^ j" by (simp only: rne_of_int)
  then have "fl ?x = of_int (m * 2 ^ j) * (1 / 2 ^ (k + j))"
    using x0 unfolding fl_def Let_def e_def [symmetric] p by simp
  then show ?thesis by (simp add: power_add)
qed

lemma fl_int: "x \<in> \<int> \<Longrightarrow> \<bar>x\<bar> < 2 ^ 53 \<Longrightarrow> fl x = x"
proof -
  assume "x \<in> \<int>" and b: "\<bar>x\<bar> < 2 ^ 53"
  then obtain m where x: "x = of_int m" by (auto elim: Ints_cases)
  have "\<bar>m\<bar> < 2 ^ 53" using b unfolding x by (metis of_int_abs of_int_less_numeral_power_cancel_iff)
  from fl_dyadic [OF this, of 0] show ?thesis by (simp add: x)
qed

lemma fl_numeral: "numeral n < (2::real) ^ 53 \<Longrightarrow> fl (numeral n) = numeral n"
  using fl_int [of "numeral n"] by simp

lemma fl_neg_numeral: "numeral n < (2::real) ^ 53 \<Longrightarrow> fl (- numeral n) = - numeral n"
  using fl_int [of "- numeral n"] by simp

lemma fl_one: "fl 1 = 1"
  using fl_int [of 1] by simp

lemmas fl_simps = fl_zero fl_one fl_numeral fl_neg_numeral

lemma fl_bound: "\<bar>fl y\<bar> \<le> 2 * \<bar>y\<bar> + 1"
proof (cases "y = 0")
  case True
  then show ?thesis by (simp add: fl_zero)
next
  case False
  define e where "e = max \<lfloor>log 2 \<bar>y\<bar>\<rfloor> (- 1022) - 52"
  define u :: real where "u = 2 powr of_int e"
  have u0: "0 < u" by (simp add: u_def)
  have ule: "u \<le> \<bar>y\<bar> + 1"
  proof (cases "- 1022 \<le> \<lfloor>log 2 \<bar>y\<bar>\<rfloor>")
    case True
    then have "of_int e \<le> log 2 \<bar>y\<bar>" unfolding e_def by (simp add: max_def) linarith
    then have "u \<le> 2 powr log 2 \<bar>y\<bar>" unfolding u_def by (simp add: powr_mono)
    then show ?thesis using False by simp
  next
    case False
    then have "e \<le> 0" unfolding e_def by simp
    then have "u \<le> 2 powr 0" unfolding u_def by (intro powr_mono) auto
    then show ?thesis by simp
  qed
  have fy: "fl y = of_int (rne (y / u)) * u"
    using False by (simp add: fl_def Let_def e_def u_def)
  have "\<bar>of_int (rne (y / u)) - y / u\<bar> \<le> 1 / 2" by (rule rne_error)
  then have "\<bar>of_int (rne (y / u))\<bar> \<le> \<bar>y / u\<bar> + 1 / 2" by linarith
  then have "\<bar>of_int (rne (y / u))\<bar> * u \<le> (\<bar>y / u\<bar> + 1 / 2) * u"
    using u0 by (simp add: mult_right_mono)
  also have "\<dots> = \<bar>y\<bar> + u / 2" using u0 by (simp add: field_simps abs_mult)
  finally have "\<bar>fl y\<bar> \<le> \<bar>y\<bar> + u / 2" using u0 by (simp add: fy abs_mult)
  then show ?thesis using ule by linarith
qed

lemma fl_nonpos: "y \<le> 0 \<Longrightarrow> fl y \<le> 0"
proof -
  assume y: "y \<le> 0"
  have "rne (y / u) \<le> 0" if "0 < u" for u :: real
    using y that by (intro rne_nonpos) (simp add: divide_nonpos_pos)
  then show ?thesis
    by (simp add: fl_def Let_def mult_nonpos_nonneg)
qed

lemma fround_fneg: "fround (fneg v) = fneg (fround v)"
  by (cases v) (auto simp: fround_def fl_minus fl_zero)

lemma fmul_neg: "fmul (Fin (- a)) c = fneg (fmul (Fin a) c)"
  by (cases c) auto

lemma rmul_neg: "rmul (Fin (- a)) c = fneg (rmul (Fin a) c)"
  by (simp add: rmul_def fmul_neg fround_fneg)

lemma fround_Fin: "fl r = r \<Longrightarrow> \<bar>r\<bar> < 2 ^ 1024 \<Longrightarrow> fround (Fin r) = Fin r"
  by (simp add: fround_def)

section \<open>Facts about load_data and the alignment mask\<close>

text \<open>What a successful \<^verbatim>\<open>load_data\<close> has established, and the exact grids on whole years.\<close>

lemma fold_min_Min: "fold min r (x::real) = Min (set (x # r))"
  by (rule Min.set_eq_fold [symmetric])

lemma fold_max_Max: "fold max r (x::real) = Max (set (x # r))"
  by (rule Max.set_eq_fold [symmetric])

lemma nanmin_Inr: "nanmin xs = Inr v \<Longrightarrow> xs \<noteq> [] \<and> v = Min (set xs)"
  by (cases xs) (simp_all add: nanmin_def fold_min_Min)

lemma nanmax_Inr: "nanmax xs = Inr v \<Longrightarrow> xs \<noteq> [] \<and> v = Max (set xs)"
  by (cases xs) (simp_all add: nanmax_def fold_max_Max)

lemma linspace_Inr: "linspace a b n = Inr xs \<Longrightarrow> 0 \<le> n \<and> length xs = nat n"
  by (auto simp: linspace_def Let_def split: if_splits)

lemma arange_Inr: "arange a b c = Inr xs \<Longrightarrow> c \<noteq> 0"
  by (auto simp: arange_def)

lemma load_data_Inr:
  assumes "load_data m data res fg os k = Inr s"
  shows "data \<noteq> []" "0 \<le> res" "fg \<noteq> 0"
    "time_data s = map fst data"
    "d14c_data s = map (\<lambda>r. fst (snd r)) data"
    "d14c_data_error s = map (\<lambda>r. snd (snd r)) data"
    "start s = Min (set (map fst data))"
    "end_t s = Max (set (map fst data))"
    "arange (start s) (fl (end_t s + 1)) 1 = Inr (annual s)"
    "mask_arr s = butlast (in1d (annual s) (time_data s))"
    "offset s = jnp_mean m (slice_to k (d14c_data s))"
    "length (burn_in_time s) = nat res"
    "production s = None" "control_points_time s = None"
    "arange (start s) (end_t s) fg = Inr (time_grid_fine s)"
proof -
  from assms obtain st en burn fine ann where
    a: "nanmin (map fst data) = Inr st" "nanmax (map fst data) = Inr en"
       "linspace (fl (st - 1000)) st res = Inr burn" "arange st en fg = Inr fine"
       "arange st (fl (en + 1)) 1 = Inr ann"
    and s: "s = \<lparr> time_data = map fst data, d14c_data = map (\<lambda>r. fst (snd r)) data,
                  d14c_data_error = map (\<lambda>r. snd (snd r)) data,
                  start = st, end_t = en, resolution = res,
                  burn_in_time = burn, time_grid_fine = fine,
                  time_oversample = os,
                  offset = jnp_mean m (slice_to k (map (\<lambda>r. fst (snd r)) data)),
                  annual = ann,
                  mask_arr = butlast (in1d ann (map fst data)),
                  production = None, control_points_time = None \<rparr>"
    by (auto simp: load_data_def Let_def split: sum.splits)
  show "data \<noteq> []" using nanmin_Inr [OF a(1)] by simp
  show "0 \<le> res" using linspace_Inr [OF a(3)] by simp
  show "fg \<noteq> 0" using arange_Inr [OF a(4)] .
  show "time_data s = map fst data" by (simp add: s)
  show "d14c_data s = map (\<lambda>r. fst (snd r)) data" by (simp add: s)
  show "d14c_data_error s = map (\<lambda>r. snd (snd r)) data" by (simp add: s)
  show "start s = Min (set (map fst data))" using nanmin_Inr [OF a(1)] by (simp add: s)
  show "end_t s = Max (set (map fst data))" using nanmax_Inr [OF a(2)] by (simp add: s)
  show "arange (start s) (fl (end_t s + 1)) 1 = Inr (annual s)" using a(5) by (simp add: s)
  show "mask_arr s = butlast (in1d (annual s) (time_data s))" by (simp add: s)
  show "offset s = jnp_mean m (slice_to k (d14c_data s))" by (simp add: s)
  show "length (burn_in_time s) = nat res" using linspace_Inr [OF a(3)] by (simp add: s)
  show "production s = None" by (simp add: s)
  show "control_points_time s = None" by (simp add: s)
  show "arange (start s) (end_t s) fg = Inr (time_grid_fine s)" using a(4) by (simp add: s)
qed

lemma ceiling_in_range:
  fixes v :: real
  assumes "\<bar>v\<bar> < 2 ^ 62"
  shows "\<not> (\<lceil>v\<rceil> < - (2 ^ 63) \<or> 2 ^ 63 \<le> \<lceil>v\<rceil>)"
proof -
  have c: "real_of_int \<lceil>v\<rceil> < v + 1" "v \<le> real_of_int \<lceil>v\<rceil>" by linarith+
  have "(2::real) ^ 63 = 2 * 2 ^ 62" "(1::real) \<le> 2 ^ 62" by simp_all
  with c assms have "real_of_int \<lceil>v\<rceil> < 2 ^ 63" "- (2 ^ 63) < real_of_int \<lceil>v\<rceil>" by linarith+
  then have "real_of_int \<lceil>v\<rceil> < real_of_int (2 ^ 63)" "real_of_int (- (2 ^ 63)) < real_of_int \<lceil>v\<rceil>"
    by (simp_all only: of_int_power of_int_numeral of_int_minus)
  then have "\<lceil>v\<rceil> < 2 ^ 63" "- (2 ^ 63) < \<lceil>v\<rceil>"
    by (simp_all only: of_int_less_iff)
  then show ?thesis by linarith
qed

lemma arange_int:
  assumes a: "a \<in> \<int>" "\<bar>a\<bar> < 2 ^ 52" and b: "b \<in> \<int>" "\<bar>b\<bar> \<le> 2 ^ 52"
  shows "arange a b 1 = Inr (map (\<lambda>i. a + real i) [0..<nat \<lceil>b - a\<rceil>])"
proof -
  have p: "(2::real) ^ 53 = 2 * 2 ^ 52" "(2::real) ^ 62 = 1024 * 2 ^ 52" "(1::real) \<le> 2 ^ 52"
    by simp_all
  have d: "fl (b - a) = b - a" using a b p by (intro fl_int) auto
  have r: "\<not> (\<lceil>b - a\<rceil> < - (2 ^ 63) \<or> 2 ^ 63 \<le> \<lceil>b - a\<rceil>)"
    using a b p by (intro ceiling_in_range) linarith
  obtain z where z: "b - a = of_int z" using a b by (metis Ints_cases Ints_diff)
  have s: "fl (a + 1) = a + 1"
  proof -
    have "a + 1 \<in> \<int>" using a by simp
    moreover have "\<bar>a + 1\<bar> < 2 ^ 53" using a p by linarith
    ultimately show ?thesis by (rule fl_int)
  qed
  have v: "fl (a + fl (real i)) = a + real i" if "i < nat \<lceil>b - a\<rceil>" for i
  proof -
    have "int i < z" using that unfolding z by simp
    then have "real i < b - a" unfolding z by (metis of_int_less_iff of_int_of_nat_eq)
    then have i: "real i < 2 ^ 53" "a + real i < 2 ^ 52" using a b p by linarith+
    have "fl (real i) = real i" using i by (intro fl_int) auto
    moreover have "fl (a + real i) = a + real i" using a i p by (intro fl_int) auto
    ultimately show ?thesis by simp
  qed
  show ?thesis using r by (auto simp: arange_def Let_def d s fl_one v)
qed

lemma Ints_add1_le:
  assumes "(x::real) \<in> \<int>" "\<bar>x\<bar> < 2 ^ 52"
  shows "\<bar>x + 1\<bar> \<le> 2 ^ 52"
proof -
  obtain z where z: "x = of_int z" using assms(1) by (auto elim: Ints_cases)
  have "real_of_int z < 2 ^ 52" using assms(2) unfolding z by linarith
  then have "z < 2 ^ 52" by (simp only: of_int_less_numeral_power_cancel_iff)
  then have "z + 1 \<le> 2 ^ 52" by linarith
  then have "real_of_int (z + 1) \<le> 2 ^ 52" by (simp only: of_int_le_numeral_power_cancel_iff)
  then show ?thesis using assms(2) unfolding z by simp
qed

lemma whole_years_Min_Max:
  assumes "whole_years td" "td \<noteq> []"
  shows "Min (set td) \<in> \<int>" "\<bar>Min (set td)\<bar> < 2 ^ 52" "Max (set td) \<in> \<int>" "\<bar>Max (set td)\<bar> < 2 ^ 52"
proof -
  have "Min (set td) \<in> set td" "Max (set td) \<in> set td" using assms(2) by simp_all
  then have m: "Min (set td) \<in> \<int>" "\<bar>Min (set td)\<bar> < 2 ^ 51" "Max (set td) \<in> \<int>" "\<bar>Max (set td)\<bar> < 2 ^ 51"
    using assms(1) unfolding whole_years_def by blast+
  have "(2::real) ^ 52 = 2 * 2 ^ 51" by simp
  with m show "Min (set td) \<in> \<int>" "\<bar>Min (set td)\<bar> < 2 ^ 52" "Max (set td) \<in> \<int>" "\<bar>Max (set td)\<bar> < 2 ^ 52"
    by linarith+
qed

lemma load_data_annual:
  assumes "load_data m data res fg os k = Inr s" and w: "whole_years (map fst data)"
  shows "annual s = map (\<lambda>i. start s + real i) [0..<nat \<lceil>end_t s + 1 - start s\<rceil>]"
proof -
  note f = load_data_Inr [OF assms(1)]
  have ne: "map fst data \<noteq> []" using f(1) by simp
  note mm = whole_years_Min_Max [OF w ne]
  have st: "start s \<in> \<int>" "\<bar>start s\<bar> < 2 ^ 52" and en: "end_t s \<in> \<int>" "\<bar>end_t s\<bar> < 2 ^ 52"
    using mm f(7,8) by simp_all
  have e1: "\<bar>end_t s + 1\<bar> \<le> 2 ^ 52" using en by (rule Ints_add1_le)
  have "(2::real) ^ 53 = 2 * 2 ^ 52" "(1::real) \<le> 2 ^ 52" by simp_all
  then have "\<bar>end_t s + 1\<bar> < 2 ^ 53" using e1 by linarith
  moreover have "end_t s + 1 \<in> \<int>" using en by simp
  ultimately have "fl (end_t s + 1) = end_t s + 1" by (intro fl_int)
  then have "arange (start s) (end_t s + 1) 1 = Inr (annual s)" using f(9) by simp
  moreover have "arange (start s) (end_t s + 1) 1 =
      Inr (map (\<lambda>i. start s + real i) [0..<nat \<lceil>end_t s + 1 - start s\<rceil>])"
    using st \<open>end_t s + 1 \<in> \<int>\<close> e1 by (intro arange_int)
  ultimately show ?thesis by simp
qed

lemma prepare_function_keeps:
  assumes "prepare_function s kwargs = Inr s'"
  shows "time_data s' = time_data s" "d14c_data s' = d14c_data s" "d14c_data_error s' = d14c_data_error s"
    "start s' = start s" "end_t s' = end_t s" "annual s' = annual s" "mask_arr s' = mask_arr s"
    "burn_in_time s' = burn_in_time s" "offset s' = offset s" "time_oversample s' = time_oversample s"
    "production s' \<noteq> None"
  using assms
  by (auto simp: prepare_function_def Let_def split: sum.splits if_splits)

lemma count_true_map: "count_list (map P xs) True = length (filter P xs)"
  by (induction xs) auto

lemma mask_count:
  fixes td :: "real list"
  assumes ne: "td \<noteq> []" and d: "distinct td" and g: "set td \<subseteq> \<int>"
  defines "st \<equiv> Min (set td)" and "en \<equiv> Max (set td)"
  shows "count_list (butlast (in1d (map (\<lambda>i. st + real i) [0..<nat \<lceil>en + 1 - st\<rceil>]) td)) True = length td - 1"
proof -
  let ?T = "set td"
  have fin: "finite ?T" and nemp: "?T \<noteq> {}" using ne by auto
  have stT: "st \<in> ?T" and enT: "en \<in> ?T" unfolding st_def en_def using fin nemp by auto
  have le: "st \<le> en" unfolding st_def en_def using fin nemp by (simp add: Min_le_iff)
  from g enT stT have "en - st \<in> \<int>" by (auto intro: Ints_diff)
  with le obtain m :: nat where m: "en - st = real m"
    by (metis Ints_cases diff_ge_0_iff_ge of_int_0_le_iff of_int_of_nat_eq zero_le_imp_eq_int)
  have len: "nat \<lceil>en + 1 - st\<rceil> = Suc m"
  proof -
    have "en + 1 - st = real (Suc m)" using m by simp
    then show ?thesis by (metis ceiling_of_nat nat_int)
  qed
  have bl: "butlast (in1d (map (\<lambda>i. st + real i) [0..<Suc m]) td) = map (\<lambda>i. st + real i \<in> ?T) [0..<m]"
  proof -
    have "butlast [0..<Suc m] = [0..<m]" by simp
    then show ?thesis by (simp add: in1d_def map_butlast [symmetric] comp_def del: upt_Suc)
  qed
  have "count_list (map (\<lambda>i. st + real i \<in> ?T) [0..<m]) True = card {i. i < m \<and> st + real i \<in> ?T}"
  proof -
    have "length (filter (\<lambda>i. st + real i \<in> ?T) [0..<m]) = card ({i. st + real i \<in> ?T} \<inter> set [0..<m])"
      by (rule distinct_length_filter) simp
    moreover have "{i. st + real i \<in> ?T} \<inter> set [0..<m] = {i. i < m \<and> st + real i \<in> ?T}" by auto
    ultimately show ?thesis by (simp add: count_true_map)
  qed
  also have "\<dots> = card (?T - {en})"
  proof (rule bij_betw_same_card [where f = "\<lambda>i. st + real i"])
    show "bij_betw (\<lambda>i. st + real i) {i. i < m \<and> st + real i \<in> ?T} (?T - {en})"
    proof (rule bij_betwI')
      fix x y assume "x \<in> {i. i < m \<and> st + real i \<in> ?T}" "y \<in> {i. i < m \<and> st + real i \<in> ?T}"
      show "(st + real x = st + real y) = (x = y)" by simp
    next
      fix x assume "x \<in> {i. i < m \<and> st + real i \<in> ?T}"
      then have "x < m" "st + real x \<in> ?T" by auto
      moreover have "st + real x \<noteq> en" using \<open>x < m\<close> m by auto
      ultimately show "st + real x \<in> ?T - {en}" by simp
    next
      fix t assume "t \<in> ?T - {en}"
      then have tT: "t \<in> ?T" and tne: "t \<noteq> en" by auto
      have "st \<le> t" "t \<le> en" unfolding st_def en_def using fin tT by auto
      from g tT stT have "t - st \<in> \<int>" by (auto intro: Ints_diff)
      with \<open>st \<le> t\<close> obtain j :: nat where j: "t - st = real j"
        by (metis Ints_cases diff_ge_0_iff_ge of_int_0_le_iff of_int_of_nat_eq zero_le_imp_eq_int)
      have "j < m" using j m \<open>t \<le> en\<close> tne by (smt (verit) of_nat_less_iff)
      moreover have "t = st + real j" using j by simp
      ultimately show "\<exists>i\<in>{i. i < m \<and> st + real i \<in> ?T}. t = st + real i" using tT by auto
    qed
  qed
  also have "\<dots> = length td - 1" using enT fin d by (simp add: distinct_card)
  finally show ?thesis using len bl by simp
qed

lemma load_data_mask_count:
  assumes l: "load_data m data res fg os k = Inr s"
    and d: "distinct (map fst data)" and w: "whole_years (map fst data)"
  shows "count_list (mask_arr s) True = length data - 1"
proof -
  note f = load_data_Inr [OF l]
  have ne: "map fst data \<noteq> []" using f(1) by simp
  have g: "set (map fst data) \<subseteq> \<int>" using w unfolding whole_years_def by blast
  from mask_count [OF ne d g] show ?thesis
    using f(4,7,8,10) load_data_annual [OF l w] by simp
qed

lemma linspace_burn: "linspace (- 900) 100 3 = Inr [- 900, - 400, 100]"
  by (simp add: linspace_def Let_def fl_simps eval_nat_numeral)

lemma arange_100_102: "arange 100 102 1 = Inr [100, 101]"
  using arange_int [of 100 102] by (simp add: eval_nat_numeral)

lemma arange_100_103: "arange 100 103 1 = Inr [100, 101, 102]"
  using arange_int [of 100 103] by (simp add: eval_nat_numeral)

lemma arange_100_104: "arange 100 104 1 = Inr [100, 101, 102, 103]"
  using arange_int [of 100 104] by (simp add: eval_nat_numeral)

lemma arange_100_101: "arange 100 101 1 = Inr [100]"
  using arange_int [of 100 101] by (simp add: eval_nat_numeral)

lemma fround_numeral: "numeral n < (2::real) ^ 53 \<Longrightarrow> fround (Fin (numeral n)) = Fin (numeral n)"
proof -
  assume n: "numeral n < (2::real) ^ 53"
  have "(2::real) ^ 53 < 2 ^ 1024" by (rule power_strict_increasing) simp_all
  with n have "numeral n < (2::real) ^ 1024" by (rule less_trans)
  then have "\<bar>numeral n :: real\<bar> < 2 ^ 1024" by (simp only: abs_numeral)
  with fl_numeral [OF n] show ?thesis by (intro fround_Fin)
qed

lemma fround_zero: "fround (Fin 0) = Fin 0"
  by (simp add: fround_def fl_zero)

lemma fround_one: "fround (Fin 1) = Fin 1"
  by (simp add: fround_def fl_one)

lemma mean_gap: "jnp_mean toy_model [Fin 1, Fin 2, Fin 3] = Fin 2"
  by (simp add: jnp_mean_def toy_model_def radd_def rdiv_def fround_numeral fround_one)

lemma loaded_gap_eq: "load_data toy_model series_gap 3 1 10 3 = Inr loaded_gap"
  by (simp add: load_data_def series_gap_def loaded_gap_def nanmin_def nanmax_def Let_def fl_simps
      linspace_burn arange_100_103 arange_100_104 in1d_def slice_to_def mean_gap)

lemma fitter_gap_eq: "prepare_function loaded_gap kwargs_gp = Inr fitter_gap"
  by (simp add: prepare_function_def kwargs_gp_def fitter_gap_def loaded_gap_def kw_def Let_def)

lemma fsum_12: "fsum [Fin 1, Fin 2] = Fin 3"
  by (simp add: fsum_def)

lemma dc14_gap: "dc14 toy_model fitter_gap [Fin 1, Fin 2] = Inr [Fin 5, Fin 5]"
  by (simp add: dc14_def run_def run_D_14_C_values_def toy_model_def fitter_gap_def loaded_gap_def
      bool_index_def fsum_12 radd_def fround_numeral)



section \<open>The alignment mask\<close>




section \<open>The prior\<close>

lemma foldl_prior_NInf: "set xs \<subseteq> {Fin 0, NInf} \<Longrightarrow> foldl fadd NInf xs = NInf"
  by (induction xs) auto

lemma foldl_prior:
  "set xs \<subseteq> {Fin 0, NInf} \<Longrightarrow> foldl fadd (Fin 0) xs = (if NInf \<in> set xs then NInf else Fin 0)"
  by (induction xs) (auto simp: foldl_prior_NInf)

lemma fgt_not_fle: "fgt p (Fin 0) \<Longrightarrow> \<not> fle p (Fin 0)"
  by (cases p) auto

text \<open>
  Claim C4. For a parameter vector of any length, \<^verbatim>\<open>log_prior\<close> is exactly 0 when every
  component is strictly positive, and minus infinity when some component is at most 0.
\<close>

theorem log_prior_values:
  "((\<forall>p \<in> set ps. fgt p (Fin 0)) \<longrightarrow> log_prior ps = Fin 0) \<and>
   ((\<exists>q \<in> set qs. fle q (Fin 0)) \<longrightarrow> log_prior qs = NInf)"
proof -
  have sub: "set (map (\<lambda>p. if fle p (Fin 0) then NInf else Fin 0) xs) \<subseteq> {Fin 0, NInf}" for xs
    by auto
  have "log_prior ps = Fin 0" if "\<forall>p \<in> set ps. fgt p (Fin 0)"
  proof -
    have "NInf \<notin> set (map (\<lambda>p. if fle p (Fin 0) then NInf else Fin 0) ps)"
      using that by (auto dest: fgt_not_fle)
    then show ?thesis unfolding log_prior_def fsum_def using foldl_prior [OF sub [of ps]] by simp
  qed
  moreover have "log_prior qs = NInf" if "\<exists>q \<in> set qs. fle q (Fin 0)"
  proof -
    have "NInf \<in> set (map (\<lambda>p. if fle p (Fin 0) then NInf else Fin 0) qs)"
      using that by force
    then show ?thesis unfolding log_prior_def fsum_def using foldl_prior [OF sub [of qs]] by simp
  qed
  ultimately show ?thesis by blast
qed

theorem log_prior_values_witness:
  "log_prior [Fin 1, Fin (1/2), PInf] = Fin 0 \<and> log_prior [Fin 1, Fin 0, Fin 3] = NInf \<and>
   log_prior [Fin 2, Fin (- 1), NInf] = NInf \<and> log_prior [] = Fin 0"
  using log_prior_values [of "[Fin 1, Fin (1/2), PInf]" "[Fin 1, Fin 0, Fin 3]"]
        log_prior_values [of "[]" "[Fin 2, Fin (- 1), NInf]"]
  by simp

section \<open>Errors of load_data\<close>

lemma arange_ok:
  assumes a: "a \<in> \<int>" "\<bar>a\<bar> < 2 ^ 52" and b: "b \<in> \<int>" "\<bar>b\<bar> < 2 ^ 52" and ab: "a \<le> b"
    and c: "1 / 128 \<le> \<bar>c\<bar>"
  shows "\<exists>xs. arange a b c = Inr xs \<and> (c < 0 \<longrightarrow> xs = [])"
proof -
  have p: "(2::real) ^ 53 = 2 * 2 ^ 52" "(2::real) ^ 62 = 1024 * 2 ^ 52" "(1::real) \<le> 2 ^ 52"
    by simp_all
  have c0: "c \<noteq> 0" using c by auto
  have d: "fl (b - a) = b - a" using a b p by (intro fl_int) auto
  have "\<bar>(b - a) / c\<bar> = \<bar>b - a\<bar> / \<bar>c\<bar>" by simp
  also have "\<dots> \<le> \<bar>b - a\<bar> / (1 / 128)"
    using c by (intro divide_left_mono) auto
  also have "\<dots> = 128 * \<bar>b - a\<bar>" by simp
  finally have q: "\<bar>(b - a) / c\<bar> \<le> 128 * \<bar>b - a\<bar>" .
  have "\<bar>fl ((b - a) / c)\<bar> \<le> 2 * \<bar>(b - a) / c\<bar> + 1" by (rule fl_bound)
  also have "\<dots> \<le> 256 * \<bar>b - a\<bar> + 1" using q by linarith
  also have "\<dots> < 2 ^ 62"
  proof -
    have "\<bar>b - a\<bar> < 2 * 2 ^ 52" using a b by linarith
    then have "256 * \<bar>b - a\<bar> + 1 < 256 * (2 * 2 ^ 52) + 1" by simp
    also have "\<dots> \<le> (2::real) ^ 62" by simp
    finally show ?thesis .
  qed
  finally have r: "\<not> (\<lceil>fl ((b - a) / c)\<rceil> < - (2 ^ 63) \<or> 2 ^ 63 \<le> \<lceil>fl ((b - a) / c)\<rceil>)"
    by (rule ceiling_in_range)
  have e: "nat \<lceil>fl ((b - a) / c)\<rceil> = 0" if "c < 0"
  proof -
    have "(b - a) / c \<le> 0" using ab that by (simp add: divide_nonneg_neg)
    then have "fl ((b - a) / c) \<le> 0" by (rule fl_nonpos)
    then have "\<lceil>fl ((b - a) / c)\<rceil> \<le> 0" by (simp add: ceiling_le_iff)
    then show ?thesis by simp
  qed
  show ?thesis using c0 r e by (auto simp: arange_def Let_def d)
qed

lemma linspace_ok: "0 \<le> n \<Longrightarrow> \<exists>xs. linspace a b n = Inr xs"
  by (simp add: linspace_def Let_def)

lemma load_data_succeeds:
  assumes ne: "data \<noteq> []" and w: "whole_years (map fst data)" and res: "0 \<le> res"
    and fg: "1 / 128 \<le> \<bar>fg\<bar>"
  shows "\<exists>s. load_data m data res fg os k = Inr s \<and> (fg < 0 \<longrightarrow> time_grid_fine s = [])"
proof -
  have ne': "map fst data \<noteq> []" using ne by simp
  note mm = whole_years_Min_Max [OF w ne']
  obtain x r where xr: "map fst data = x # r" using ne' by (cases "map fst data") auto
  let ?st = "Min (set (map fst data))" and ?en = "Max (set (map fst data))"
  have mn: "nanmin (map fst data) = Inr ?st" unfolding xr by (simp add: nanmin_def fold_min_Min)
  have mx: "nanmax (map fst data) = Inr ?en" unfolding xr by (simp add: nanmax_def fold_max_Max)
  have le: "?st \<le> ?en" using ne' by (simp add: Min_le_iff)
  obtain burn where burn: "linspace (fl (?st - 1000)) ?st res = Inr burn"
    using linspace_ok [OF res] by blast
  obtain fine where fine: "arange ?st ?en fg = Inr fine" "fg < 0 \<longrightarrow> fine = []"
    using arange_ok [OF mm(1,2) mm(3,4) le fg] by blast
  have e1: "\<bar>?en + 1\<bar> \<le> 2 ^ 52" using mm(3,4) by (rule Ints_add1_le)
  have "(2::real) ^ 53 = 2 * 2 ^ 52" "(1::real) \<le> 2 ^ 52" by simp_all
  then have "\<bar>?en + 1\<bar> < 2 ^ 53" using e1 by linarith
  moreover have i1: "?en + 1 \<in> \<int>" using mm(3) by simp
  ultimately have f1: "fl (?en + 1) = ?en + 1" by (intro fl_int)
  have ann: "arange ?st (fl (?en + 1)) 1 =
      Inr (map (\<lambda>i. ?st + real i) [0..<nat \<lceil>?en + 1 - ?st\<rceil>])"
    unfolding f1 using mm(1,2) i1 e1 by (intro arange_int)
  have "load_data m data res fg os k =
      Inr \<lparr> time_data = map fst data, d14c_data = map (\<lambda>r. fst (snd r)) data,
            d14c_data_error = map (\<lambda>r. snd (snd r)) data,
            start = ?st, end_t = ?en, resolution = res,
            burn_in_time = burn, time_grid_fine = fine,
            time_oversample = os,
            offset = jnp_mean m (slice_to k (map (\<lambda>r. fst (snd r)) data)),
            annual = map (\<lambda>i. ?st + real i) [0..<nat \<lceil>?en + 1 - ?st\<rceil>],
            mask_arr = butlast (in1d (map (\<lambda>i. ?st + real i) [0..<nat \<lceil>?en + 1 - ?st\<rceil>])
                                 (map fst data)),
            production = None, control_points_time = None \<rparr>"
    by (simp only: load_data_def Let_def mn mx burn fine(1) ann sum.case)
  then show ?thesis using fine(2) by simp
qed

lemma nanmin_Inl: "nanmin xs = Inl e \<Longrightarrow> xs = []"
  by (cases xs) (simp_all add: nanmin_def)

lemma load_data_raises:
  assumes "data = [] \<or> res < 0 \<or> fg = 0"
  shows "isl (load_data m data res fg os k)"
proof (cases "load_data m data res fg os k")
  case (Inl e)
  then show ?thesis by simp
next
  case (Inr s)
  from load_data_Inr(1,2,3) [OF Inr] assms show ?thesis by auto
qed

lemma load_data_offset_all:
  assumes s: "load_data m data res fg os k = Inr s" and k: "int (length data) \<le> k"
  shows "offset s = jnp_mean m (d14c_data s)"
proof -
  have "slice_to k (d14c_data s) = d14c_data s"
    using load_data_Inr(5) [OF s] k by (simp add: slice_to_def)
  then show ?thesis using load_data_Inr(11) [OF s] by simp
qed

lemma whole_gap: "whole_years (map fst series_gap)"
  by (simp add: series_gap_def whole_years_def)

text \<open>
  Claim C8, as amended. \<^verbatim>\<open>load_data\<close> checks none of its arguments and raises only
  where a library call does: on an empty series, on a negative resolution and on a
  fine-grid step of 0. On a non-empty series of whole-number years it returns for every
  resolution from 0 on (the burn-in grid then has that many points, also 0 or 1), for
  every step of magnitude at least 1/128 (a negative step gives an empty fine grid) and
  for every number of leading points (from the series length on, the offset is the mean
  of the whole series).
\<close>

theorem load_data_errors:
  "(data = [] \<or> res < 0 \<or> fg = 0 \<longrightarrow> isl (load_data m data res fg os k)) \<and>
   (data \<noteq> [] \<and> whole_years (map fst data) \<and> 0 \<le> res \<and> 1 / 128 \<le> \<bar>fg\<bar> \<longrightarrow>
      (\<exists>s. load_data m data res fg os k = Inr s \<and>
           length (burn_in_time s) = nat res \<and>
           (fg < 0 \<longrightarrow> time_grid_fine s = []) \<and>
           (int (length data) \<le> k \<longrightarrow> offset s = jnp_mean m (d14c_data s))))"
proof (intro conjI impI)
  assume "data = [] \<or> res < 0 \<or> fg = 0"
  then show "isl (load_data m data res fg os k)" by (rule load_data_raises)
next
  assume h: "data \<noteq> [] \<and> whole_years (map fst data) \<and> 0 \<le> res \<and> 1 / 128 \<le> \<bar>fg\<bar>"
  then obtain s where s: "load_data m data res fg os k = Inr s" "fg < 0 \<longrightarrow> time_grid_fine s = []"
    using load_data_succeeds [of data res fg m os k] by blast
  have "length (burn_in_time s) = nat res" by (rule load_data_Inr(12) [OF s(1)])
  moreover have "int (length data) \<le> k \<longrightarrow> offset s = jnp_mean m (d14c_data s)"
    using load_data_offset_all [OF s(1)] by blast
  ultimately show "\<exists>s. load_data m data res fg os k = Inr s \<and>
           length (burn_in_time s) = nat res \<and>
           (fg < 0 \<longrightarrow> time_grid_fine s = []) \<and>
           (int (length data) \<le> k \<longrightarrow> offset s = jnp_mean m (d14c_data s))"
    using s by blast
qed

theorem load_data_errors_witness:
  "isl (load_data toy_model [] 3 1 10 3) \<and>
   map_sum id (\<lambda>s. (length (burn_in_time s), time_grid_fine s, offset s))
     (load_data toy_model series_gap 1 (- 1) 10 7) = Inr (1, [], Fin 2)"
proof -
  have a: "isl (load_data toy_model [] 3 1 10 3)"
    using load_data_errors [of "[]" 3 1 toy_model 10 3] by simp
  have ne: "series_gap \<noteq> []" and len: "int (length series_gap) \<le> 7"
    by (simp_all add: series_gap_def)
  from load_data_errors [of series_gap 1 "- 1" toy_model 10 7] ne len whole_gap
  obtain s where s: "load_data toy_model series_gap 1 (- 1) 10 7 = Inr s"
    "length (burn_in_time s) = nat 1" "time_grid_fine s = []"
    "offset s = jnp_mean toy_model (d14c_data s)"
    by auto
  have d: "d14c_data s = [Fin 1, Fin 2, Fin 3]"
    using load_data_Inr(5) [OF s(1)] by (simp add: series_gap_def)
  have "offset s = Fin 2" unfolding s(4) d by (rule mean_gap)
  then show ?thesis using a s by simp
qed

text \<open>
  The claim as stated fails: on a series of three observations a resolution of 1, a step
  of -1 and seven leading points are each accepted.
\<close>

theorem load_data_errors_counterexample:
  "\<not> isl (load_data toy_model series_gap 1 1 10 3) \<and>
   \<not> isl (load_data toy_model series_gap 3 (- 1) 10 3) \<and>
   \<not> isl (load_data toy_model series_gap 3 1 10 7) \<and> length series_gap = 3"
proof -
  have ne: "series_gap \<noteq> []" by (simp add: series_gap_def)
  have "\<not> isl (load_data toy_model series_gap res fg 10 k)" if "0 \<le> res" "1 / 128 \<le> \<bar>fg\<bar>" for res fg k
    using load_data_succeeds [OF ne whole_gap that, of toy_model 10 k] by auto
  from this [of 1 1 3] this [of 3 "- 1" 3] this [of 3 1 7] show ?thesis
    by (simp add: series_gap_def)
qed

section \<open>The length of the simulated curve\<close>

lemma length_bool_index: "length d = length m \<Longrightarrow> length (filter snd (zip d m)) = count_list m True"
  by (induction d m rule: list_induct2) auto

lemma dc14_returns:
  assumes "production s = Some p" "cbm_shapes m" "burn_in_time s \<noteq> []"
    "length (mask_arr s) = length (annual s) - 1"
  shows "\<exists>c. dc14 m s params = Inr c \<and> length c = count_list (mask_arr s) True"
proof -
  let ?b = "cbm_run m (burn_in_time s) (p, control_points_time s) params (steady_state_y0 m)"
  have "length ?b = length (burn_in_time s)" using assms(2) by (simp add: cbm_shapes_def)
  then have b: "?b \<noteq> []" using assms(3) by auto
  let ?d = "cbm_run_D_14_C_values m (annual s) (time_oversample s) (p, control_points_time s)
              params (last ?b) (steady_state_y0 m)"
  have d: "length ?d = length (mask_arr s)" using assms(2,4) by (simp add: cbm_shapes_def)
  have "dc14 m s params = Inr (map (\<lambda>x. radd x (offset s)) (map fst (filter snd (zip ?d (mask_arr s)))))"
    using assms(1) b d by (simp add: dc14_def run_def run_D_14_C_values_def bool_index_def)
  then show ?thesis using length_bool_index [OF d] by simp
qed

text \<open>
  Claim C1, as amended. After \<^verbatim>\<open>load_data\<close> with a positive resolution and
  \<^verbatim>\<open>prepare_function\<close>, and with a box model that returns one state per time value and
  one value per annual interval, \<^verbatim>\<open>dc14\<close> returns for every parameter vector a curve
  whose length is the number of True entries of the alignment mask. That number is the
  length of the observation series minus one when the observation years are pairwise
  distinct whole numbers (of magnitude below \<open>2\<^sup>5\<^sup>1\<close>).
\<close>

theorem dc14_length:
  assumes "load_data m data res fg os k = Inr s0" "prepare_function s0 kwargs = Inr s"
    "cbm_shapes m" "0 < res"
  shows "\<exists>c. dc14 m s params = Inr c \<and> length c = count_list (mask_arr s) True \<and>
     (distinct (map fst data) \<and> whole_years (map fst data) \<longrightarrow> length c = length data - 1)"
proof -
  note f = load_data_Inr [OF assms(1)] and g = prepare_function_keeps [OF assms(2)]
  obtain p where p: "production s = Some p" using g(11) by auto
  have b: "burn_in_time s \<noteq> []" using f(12) g(8) assms(4) by auto
  have len: "length (mask_arr s) = length (annual s) - 1" using f(10) g(6,7) by (simp add: in1d_def)
  from dc14_returns [OF p assms(3) b len, of params]
  obtain c where c: "dc14 m s params = Inr c" "length c = count_list (mask_arr s) True" by blast
  have "length c = length data - 1" if "distinct (map fst data)" "whole_years (map fst data)"
    using load_data_mask_count [OF assms(1) that] c(2) g(7) by simp
  with c show ?thesis by blast
qed

lemma toy_shapes: "cbm_shapes toy_model"
  by (simp add: cbm_shapes_def toy_model_def)

theorem dc14_length_witness:
  "load_data toy_model series_gap 3 1 10 3 = Inr loaded_gap \<and>
   prepare_function loaded_gap kwargs_gp = Inr fitter_gap \<and>
   cbm_shapes toy_model \<and> dc14 toy_model fitter_gap [Fin 1, Fin 2] = Inr [Fin 5, Fin 5] \<and>
   count_list (mask_arr fitter_gap) True = 2 \<and> length series_gap - 1 = 2"
proof -
  have d: "distinct (map fst series_gap)" by (simp add: series_gap_def)
  have l: "length series_gap - 1 = 2" by (simp add: series_gap_def)
  from dc14_length [OF loaded_gap_eq fitter_gap_eq toy_shapes, of "[Fin 1, Fin 2]"] d whole_gap l
  have "count_list (mask_arr fitter_gap) True = 2" by (auto simp: dc14_gap)
  then show ?thesis using loaded_gap_eq fitter_gap_eq toy_shapes dc14_gap l by simp
qed

text \<open>
  The claim as stated fails on the series with a repeated year: the curve has one point
  for three observations.
\<close>

lemma loaded_dup_eq: "load_data toy_model series_dup 3 1 10 3 =
  Inr \<lparr> time_data = [100, 100, 101], d14c_data = [Fin 1, Fin 2, Fin 3],
       d14c_data_error = [Fin 1, Fin 1, Fin 1], start = 100, end_t = 101, resolution = 3,
       burn_in_time = [- 900, - 400, 100], time_grid_fine = [100],
       time_oversample = 10, offset = Fin 2, annual = [100, 101],
       mask_arr = [True], production = None, control_points_time = None \<rparr>"
  by (simp add: load_data_def series_dup_def nanmin_def nanmax_def Let_def fl_simps
      linspace_burn arange_100_101 arange_100_102 in1d_def slice_to_def mean_gap)

theorem dc14_length_counterexample:
  "map_sum id (\<lambda>s. map_sum id length (dc14 toy_model s [Fin 1, Fin 2]))
      (load_and_prepare toy_model series_dup 3 1 10 3 Map.empty) = Inr (Inr 1) \<and>
   length series_dup - 1 = 2"
  by (simp add: load_and_prepare_def loaded_dup_eq prepare_function_def kw_def or_default_def Let_def)
     (simp add: dc14_def run_def run_D_14_C_values_def toy_model_def bool_index_def series_dup_def)

section \<open>Control-point spacing\<close>

text \<open>On whole years the loop of \<^verbatim>\<open>prepare_function\<close> computes the spacing rule exactly.\<close>

lemma cp_loop_spacing:
  assumes dv: "num_of dv = Some d" and gv: "num_of gv = Some g"
    and d: "d \<in> \<int>" "\<bar>d\<bar> < 2 ^ 51" and g: "g \<in> \<int>" "\<bar>g\<bar> < 2 ^ 51"
  shows "(\<forall>i \<in> set js. td ! i \<in> \<int> \<and> \<bar>td ! i\<bar> < 2 ^ 51) \<Longrightarrow>
         last cps \<in> \<int> \<Longrightarrow> \<bar>last cps\<bar> < 2 ^ 52 \<Longrightarrow>
         cp_loop td dv gv js cps = Inr (spacing_rule d g (map ((!) td) js) cps)"
proof (induction js arbitrary: cps)
  case Nil
  then show ?case by simp
next
  case (Cons i js)
  let ?t = "td ! i"
  have p: "(2::real) ^ 52 = 2 * 2 ^ 51" "(2::real) ^ 53 = 4 * 2 ^ 51" "(0::real) < 2 ^ 51"
    by simp_all
  have t: "?t \<in> \<int>" "\<bar>?t\<bar> < 2 ^ 51" using Cons.prems(1) by simp_all
  have rest: "\<forall>i \<in> set js. td ! i \<in> \<int> \<and> \<bar>td ! i\<bar> < 2 ^ 51" using Cons.prems(1) by simp
  have l: "last cps \<in> \<int>" "\<bar>last cps\<bar> < 2 ^ 52" using Cons.prems(2,3) by simp_all
  have f1: "fl (?t - last cps) = ?t - last cps"
  proof (rule fl_int)
    show "?t - last cps \<in> \<int>" using t l by simp
    show "\<bar>?t - last cps\<bar> < 2 ^ 53" using t l p by linarith
  qed
  have f2: "fl (?t + d) = ?t + d"
  proof (rule fl_int)
    show "?t + d \<in> \<int>" using t d by simp
    show "\<bar>?t + d\<bar> < 2 ^ 53" using t d p by linarith
  qed
  have f3: "fl (last cps + g) = last cps + g"
  proof (rule fl_int)
    show "last cps + g \<in> \<int>" using l g by simp
    show "\<bar>last cps + g\<bar> < 2 ^ 53" using l g p by linarith
  qed
  have i1: "cp_loop td dv gv js (cps @ [?t + d]) =
      Inr (spacing_rule d g (map ((!) td) js) (cps @ [?t + d]))"
  proof (rule Cons.IH [OF rest])
    show "last (cps @ [?t + d]) \<in> \<int>" using t d by simp
    have "\<bar>?t + d\<bar> < 2 ^ 52" using t d p by linarith
    then show "\<bar>last (cps @ [?t + d])\<bar> < 2 ^ 52" by simp
  qed
  have i2: "cp_loop td dv gv js (cps @ [?t]) =
      Inr (spacing_rule d g (map ((!) td) js) (cps @ [?t]))"
  proof (rule Cons.IH [OF rest])
    show "last (cps @ [?t]) \<in> \<int>" using t by simp
    have "\<bar>?t\<bar> < 2 ^ 52" using t p by linarith
    then show "\<bar>last (cps @ [?t])\<bar> < 2 ^ 52" by simp
  qed
  have i3: "cp_loop td dv gv js cps = Inr (spacing_rule d g (map ((!) td) js) cps)"
    by (rule Cons.IH [OF rest l])
  have e: "(last cps + g \<le> ?t) = (g \<le> ?t - last cps)" by linarith
  show ?case by (simp add: dv gv f1 f2 f3 i1 i2 i3 e)
qed

lemma map_nth_butlast: "map ((!) td) [0..<length td - 1] = butlast td"
  by (rule nth_equalityI) (auto simp: nth_butlast)

lemma cp_loop_prepare:
  assumes dv: "num_of dv = Some d" and gv: "num_of gv = Some g"
    and w: "whole_years (start s # d # g # time_data s)"
  shows "cp_loop (time_data s) dv gv [0..<length (butlast (time_data s))] [fl (start s - 1), start s] =
         Inr (spacing_rule d g (butlast (time_data s)) [start s - 1, start s])"
proof -
  have p: "(2::real) ^ 52 = 2 * 2 ^ 51" "(2::real) ^ 53 = 4 * 2 ^ 51" "(1::real) \<le> 2 ^ 51"
    by simp_all
  have st: "start s \<in> \<int>" "\<bar>start s\<bar> < 2 ^ 51" and d: "d \<in> \<int>" "\<bar>d\<bar> < 2 ^ 51"
    and g: "g \<in> \<int>" "\<bar>g\<bar> < 2 ^ 51"
    and td: "\<forall>t \<in> set (time_data s). t \<in> \<int> \<and> \<bar>t\<bar> < 2 ^ 51"
    using w by (simp_all add: whole_years_def)
  have f0: "fl (start s - 1) = start s - 1"
  proof (rule fl_int)
    show "start s - 1 \<in> \<int>" using st by simp
    show "\<bar>start s - 1\<bar> < 2 ^ 53" using st p by linarith
  qed
  have js: "\<forall>i \<in> set [0..<length (time_data s) - 1]. time_data s ! i \<in> \<int> \<and> \<bar>time_data s ! i\<bar> < 2 ^ 51"
    using td by simp
  have l: "last [start s - 1, start s] \<in> \<int>" "\<bar>last [start s - 1, start s]\<bar> < 2 ^ 52"
    using st p by simp_all
  from cp_loop_spacing [OF dv gv d g js l]
  have "cp_loop (time_data s) dv gv [0..<length (time_data s) - 1] [start s - 1, start s] =
        Inr (spacing_rule d g (butlast (time_data s)) [start s - 1, start s])"
    by (simp only: map_nth_butlast)
  then show ?thesis by (simp only: f0 length_butlast)
qed

text \<open>
  Claim C2, as amended. With \<^verbatim>\<open>use_control_points\<close> true, \<^verbatim>\<open>interp\<close> linear and
  whole-number years, \<^verbatim>\<open>dense_years\<close> and \<^verbatim>\<open>gap_years\<close> (of magnitude below
  \<open>2\<^sup>5\<^sup>1\<close>), \<^verbatim>\<open>prepare_function\<close> selects the linear interpolation and stores the
  control points of the spacing rule, started from \<open>[start - 1, start]\<close> and walked over
  the observation times but the last, without the points beyond the window end. For the
  times 100, 101, 110, 200 with \<^verbatim>\<open>dense_years\<close> 3 and \<^verbatim>\<open>gap_years\<close> 5 these are
  99, 100, 104, 110: the last time, 200, is never visited.
\<close>

theorem control_point_spacing:
  assumes "kwargs ''use_control_points'' = Some (VBool True)"
      and "kw kwargs ''interp'' (VStr ''linear'') = VStr ''linear''"
      and "num_of (kw kwargs ''dense_years'' (VNum 3)) = Some dense"
      and "num_of (kw kwargs ''gap_years'' (VNum 5)) = Some gap"
      and "whole_years (start s # dense # gap # time_data s)"
  shows "\<exists>s'. prepare_function s kwargs = Inr s' \<and> production s' = Some interp_linear \<and>
     control_points_time s' =
       Some (filter (\<lambda>c. c \<le> end_t s)
               (spacing_rule dense gap (butlast (time_data s)) [start s - 1, start s]))"
proof -
  have u: "kw kwargs ''use_control_points'' (VBool False) = VBool True"
    using assms(1) by (simp add: kw_def)
  note l = cp_loop_prepare [OF assms(3,4,5)]
  show ?thesis unfolding prepare_function_def Let_def u assms(2) l by simp
qed

lemma whole_spacing: "whole_years (100 # 3 # 5 # map fst series_spacing)"
  by (simp add: series_spacing_def whole_years_def)

lemma series_spacing_loaded:
  "\<exists>s. load_data toy_model series_spacing 3 1 10 4 = Inr s \<and> time_data s = [100, 101, 110, 200] \<and>
       start s = 100 \<and> end_t s = 200"
proof -
  have ne: "series_spacing \<noteq> []" by (simp add: series_spacing_def)
  have w: "whole_years (map fst series_spacing)" using whole_spacing by (simp add: whole_years_def)
  obtain s where s: "load_data toy_model series_spacing 3 1 10 4 = Inr s"
    using load_data_succeeds [OF ne w, of 3 1 toy_model 10 4] by auto
  note f = load_data_Inr [OF s]
  have "time_data s = [100, 101, 110, 200]" using f(4) by (simp add: series_spacing_def)
  moreover have "start s = 100" using f(7) by (simp add: series_spacing_def)
  moreover have "end_t s = 200" using f(8) by (simp add: series_spacing_def)
  ultimately show ?thesis using s by blast
qed

theorem control_point_spacing_witness:
  "map_sum id control_points_time (load_and_prepare toy_model series_spacing 3 1 10 4 kwargs_spacing) =
     Inr (Some [99, 100, 104, 110])"
proof -
  obtain s where s: "load_data toy_model series_spacing 3 1 10 4 = Inr s"
      "time_data s = [100, 101, 110, 200]" "start s = 100" "end_t s = 200"
    using series_spacing_loaded by blast
  have w: "whole_years (start s # 3 # 5 # time_data s)"
    using whole_spacing s by (simp add: series_spacing_def)
  from control_point_spacing [of kwargs_spacing 3 5 s] w
  obtain s' where "prepare_function s kwargs_spacing = Inr s'"
    "control_points_time s' =
       Some (filter (\<lambda>c. c \<le> end_t s) (spacing_rule 3 5 (butlast (time_data s)) [start s - 1, start s]))"
    by (auto simp: kwargs_spacing_def kw_def)
  then show ?thesis using s by (simp add: load_and_prepare_def)
qed

text \<open>
  The claim as stated gives 99, 100, 104, 110, 200 for the example, all of them within the
  window, which ends at 200; the code does not produce the point 200.
\<close>

lemma spacing_example_value:
  "map_sum id control_points_time (load_and_prepare toy_model series_spacing 3 1 10 4 kwargs_spacing) =
     Inr (Some [99, 100, 104, 110])"
proof -
  obtain s where s: "load_data toy_model series_spacing 3 1 10 4 = Inr s"
      "time_data s = [100, 101, 110, 200]" "start s = 100" "end_t s = 200"
    using series_spacing_loaded by blast
  have w: "whole_years (start s # 3 # 5 # time_data s)"
    using whole_spacing s by (simp add: series_spacing_def)
  have n: "num_of (VNum 3) = Some 3" "num_of (VNum 5) = Some 5" by simp_all
  have "cp_loop (time_data s) (VNum 3) (VNum 5) [0..<length (butlast (time_data s))]
          [fl (start s - 1), start s] = Inr [99, 100, 104, 110]"
    unfolding cp_loop_prepare [OF n w] by (simp add: s)
  then show ?thesis using s(1,4)
    by (simp add: load_and_prepare_def prepare_function_def kwargs_spacing_def kw_def Let_def)
qed

theorem control_point_spacing_counterexample:
  "map_sum id control_points_time (load_and_prepare toy_model series_spacing 3 1 10 4 kwargs_spacing) \<noteq>
     Inr (Some [99, 100, 104, 110, 200])"
  using spacing_example_value by simp

section \<open>The choice of the production function\<close>

lemma cp_loop_Inr:
  assumes "num_of dv = Some d" "num_of gv = Some g"
  shows "\<exists>r. cp_loop td dv gv js cps = Inr r"
  using assms by (induction js arbitrary: cps) auto

lemma prepare_function_linear:
  assumes "kw kwargs ''use_control_points'' (VBool False) = VBool True"
      and "kw kwargs ''interp'' (VStr ''linear'') = VStr ''linear''"
      and "num_of (kw kwargs ''dense_years'' (VNum 3)) = Some dense"
      and "num_of (kw kwargs ''gap_years'' (VNum 5)) = Some gap"
  shows "\<exists>s'. prepare_function s kwargs = Inr s' \<and> production s' = Some interp_linear"
proof -
  obtain r where r: "cp_loop (time_data s) (kw kwargs ''dense_years'' (VNum 3))
      (kw kwargs ''gap_years'' (VNum 5)) [0..<length (butlast (time_data s))]
      [fl (start s - 1), start s] = Inr r"
    using cp_loop_Inr [OF assms(3,4)] by blast
  show ?thesis unfolding prepare_function_def Let_def assms(1,2) r by simp
qed

lemma prepare_function_gp:
  assumes "kw kwargs ''use_control_points'' (VBool False) = VBool True"
      and "kw kwargs ''interp'' (VStr ''linear'') = VStr ''gp''"
  shows "\<exists>s'. prepare_function s kwargs = Inr s' \<and> production s' = Some interp_gp"
  using assms by (simp add: prepare_function_def Let_def)

lemma prepare_function_other:
  assumes "kw kwargs ''use_control_points'' (VBool False) \<noteq> VBool True \<or>
           (kw kwargs ''interp'' (VStr ''linear'') \<noteq> VStr ''linear'' \<and>
            kw kwargs ''interp'' (VStr ''linear'') \<noteq> VStr ''gp'')"
  shows "\<exists>s' p. prepare_function s kwargs = Inr s' \<and> production s' = Some p \<and>
           (kwargs ''custom_function'' = Some (VBool True) \<longrightarrow>
              (\<forall>f. kwargs ''f'' = Some f \<and> f \<noteq> VNone \<longrightarrow> p = custom f))"
  using assms by (auto simp: prepare_function_def Let_def kw_def or_default_def)

text \<open>
  Claim C10, as amended. With numeric \<^verbatim>\<open>dense_years\<close> and \<^verbatim>\<open>gap_years\<close>,
  \<^verbatim>\<open>prepare_function\<close> returns with exactly one production function selected. If
  \<^verbatim>\<open>use_control_points\<close> is True, \<^verbatim>\<open>interp\<close> linear selects the linear and
  \<^verbatim>\<open>interp\<close> gp the Gaussian-process interpolation, whatever \<^verbatim>\<open>custom_function\<close>
  and \<^verbatim>\<open>production\<close> are. If \<^verbatim>\<open>use_control_points\<close> is not True,
  \<^verbatim>\<open>custom_function\<close> True with an \<open>f\<close> other than None selects \<open>f\<close>, also when
  \<^verbatim>\<open>production\<close> is miyake.
\<close>

theorem prepare_function_precedence:
  assumes "num_of (kw kwargs ''dense_years'' (VNum 3)) = Some dense"
      and "num_of (kw kwargs ''gap_years'' (VNum 5)) = Some gap"
  shows "\<exists>s' p. prepare_function s kwargs = Inr s' \<and> production s' = Some p \<and>
     (kwargs ''use_control_points'' = Some (VBool True) \<longrightarrow>
        (kw kwargs ''interp'' (VStr ''linear'') = VStr ''linear'' \<longrightarrow> p = interp_linear) \<and>
        (kw kwargs ''interp'' (VStr ''linear'') = VStr ''gp'' \<longrightarrow> p = interp_gp)) \<and>
     (kwargs ''use_control_points'' \<noteq> Some (VBool True) \<longrightarrow>
        kwargs ''custom_function'' = Some (VBool True) \<longrightarrow>
        (\<forall>f. kwargs ''f'' = Some f \<and> f \<noteq> VNone \<longrightarrow> p = custom f))"
proof (cases "kwargs ''use_control_points'' = Some (VBool True)")
  case True
  then have u: "kw kwargs ''use_control_points'' (VBool False) = VBool True" by (simp add: kw_def)
  consider (lin) "kw kwargs ''interp'' (VStr ''linear'') = VStr ''linear''"
    | (gp) "kw kwargs ''interp'' (VStr ''linear'') = VStr ''gp''"
    | (other) "kw kwargs ''interp'' (VStr ''linear'') \<noteq> VStr ''linear''"
        "kw kwargs ''interp'' (VStr ''linear'') \<noteq> VStr ''gp''"
    by blast
  then show ?thesis
  proof cases
    case lin
    from prepare_function_linear [OF u lin assms, of s] show ?thesis using True lin by auto
  next
    case gp
    from prepare_function_gp [OF u gp, of s] show ?thesis using True gp by auto
  next
    case other
    then have "kw kwargs ''use_control_points'' (VBool False) \<noteq> VBool True \<or>
           (kw kwargs ''interp'' (VStr ''linear'') \<noteq> VStr ''linear'' \<and>
            kw kwargs ''interp'' (VStr ''linear'') \<noteq> VStr ''gp'')" by simp
    from prepare_function_other [OF this, of s] show ?thesis using True other by blast
  qed
next
  case False
  then have "kw kwargs ''use_control_points'' (VBool False) \<noteq> VBool True"
    by (auto simp: kw_def split: option.splits)
  then have "kw kwargs ''use_control_points'' (VBool False) \<noteq> VBool True \<or>
           (kw kwargs ''interp'' (VStr ''linear'') \<noteq> VStr ''linear'' \<and>
            kw kwargs ''interp'' (VStr ''linear'') \<noteq> VStr ''gp'')" by simp
  from prepare_function_other [OF this, of s] show ?thesis using False by blast
qed

theorem prepare_function_precedence_witness:
  "map_sum id production (prepare_function loaded_gap kwargs_spacing) = Inr (Some interp_linear) \<and>
   map_sum id production (prepare_function loaded_gap kwargs_gp) = Inr (Some interp_gp) \<and>
   map_sum id production (prepare_function loaded_gap kwargs_custom) = Inr (Some (custom (VFun 0)))"
proof -
  have "map_sum id production (prepare_function loaded_gap kwargs_spacing) = Inr (Some interp_linear)"
    using prepare_function_precedence [of kwargs_spacing 3 5 loaded_gap]
    by (auto simp: kwargs_spacing_def kw_def)
  moreover have "map_sum id production (prepare_function loaded_gap kwargs_gp) = Inr (Some interp_gp)"
    using prepare_function_precedence [of kwargs_gp 3 5 loaded_gap]
    by (auto simp: kwargs_gp_def kw_def)
  moreover have "map_sum id production (prepare_function loaded_gap kwargs_custom) = Inr (Some (custom (VFun 0)))"
    using prepare_function_precedence [of kwargs_custom 3 5 loaded_gap]
    by (auto simp: kwargs_custom_def kw_def)
  ultimately show ?thesis by blast
qed

text \<open>
  The claim as stated fails when \<^verbatim>\<open>use_control_points\<close> is True and \<^verbatim>\<open>interp\<close> is
  neither linear nor gp: no interpolation is selected and the custom function stays
  active.
\<close>

theorem prepare_function_precedence_counterexample:
  "kwargs_cubic ''use_control_points'' = Some (VBool True) \<and>
   map_sum id production (prepare_function loaded_gap kwargs_cubic) = Inr (Some (custom (VFun 0)))"
  by (simp add: prepare_function_def kwargs_cubic_def kw_def or_default_def Let_def)

section \<open>Likelihood and losses\<close>

lemma fround_dyadic:
  assumes m: "\<bar>m\<bar> < 2 ^ 53" and k: "k \<le> 1074"
  shows "fround (Fin (of_int m / 2 ^ k)) = Fin (of_int m / 2 ^ k)"
proof (rule fround_Fin)
  show "fl (of_int m / 2 ^ k) = of_int m / 2 ^ k" using m k by (rule fl_dyadic)
  have a: "\<bar>real_of_int m\<bar> < 2 ^ 53" using m by (metis of_int_abs of_int_less_numeral_power_cancel_iff)
  have "(2::real) ^ 53 < 2 ^ 1024" by (rule power_strict_increasing) simp_all
  with a have b: "\<bar>real_of_int m\<bar> < 2 ^ 1024" by (rule less_trans)
  have "\<bar>real_of_int m / 2 ^ k\<bar> = \<bar>real_of_int m\<bar> / 2 ^ k" by simp
  also have "\<dots> \<le> \<bar>real_of_int m\<bar> / 1" by (intro divide_left_mono) simp_all
  finally show "\<bar>real_of_int m / 2 ^ k\<bar> < 2 ^ 1024" using b by simp
qed

lemma fround_neg_numeral: "numeral n < (2::real) ^ 53 \<Longrightarrow> fround (Fin (- numeral n)) = Fin (- numeral n)"
  using fround_fneg [of "Fin (numeral n)"] by (simp add: fround_numeral)

lemma fround_quarters:
  "fround (Fin (- (3 / 2))) = Fin (- (3 / 2))"
  "fround (Fin (9 / 4)) = Fin (9 / 4)"
  "fround (Fin (73 / 4)) = Fin (73 / 4)"
  "fround (Fin (73 / 8)) = Fin (73 / 8)"
  "fround (Fin (73 / 32)) = Fin (73 / 32)"
  "fround (Fin (49 / 8)) = Fin (49 / 8)"
  "fround (Fin (49 / 16)) = Fin (49 / 16)"
  "fround (Fin (- (73 / 8))) = Fin (- (73 / 8))"
  using fround_dyadic [of "- 3" 1] fround_dyadic [of 9 2] fround_dyadic [of 73 2]
    fround_dyadic [of 73 3] fround_dyadic [of 73 5] fround_dyadic [of 49 3]
    fround_dyadic [of 49 4] fround_dyadic [of "- 73" 3]
  by simp_all

lemma chi2_sum_aligned:
  assumes "length sim = length (d14c_data s) - 1" "length (d14c_data_error s) = length (d14c_data s)"
  shows "chi2_sum m s sim =
     Inr (jnp_sum m (map (\<lambda>i. rmul (rdiv (rsub (d14c_data s ! i) (sim ! i)) (d14c_data_error s ! i))
                                    (rdiv (rsub (d14c_data s ! i) (sim ! i)) (d14c_data_error s ! i)))
                         [0..<length (d14c_data s) - 1]))"
proof -
  let ?obs = "d14c_data s" and ?err = "d14c_data_error s"
  let ?n = "length ?obs - 1"
  let ?diff = "map (\<lambda>(x, y). rsub x y) (zip (butlast ?obs) sim)"
  let ?q = "map (\<lambda>(x, y). rdiv x y) (zip ?diff (butlast ?err))"
  have b1: "broadcast2 rsub (butlast ?obs) sim = Inr ?diff"
    using assms(1) by (simp add: broadcast2_def)
  have ld: "length ?diff = ?n" using assms(1) by simp
  have b2: "broadcast2 rdiv ?diff (butlast ?err) = Inr ?q"
    using assms by (simp add: broadcast2_def)
  have "map (\<lambda>x. rmul x x) ?q =
        map (\<lambda>i. rmul (rdiv (rsub (?obs ! i) (sim ! i)) (?err ! i))
                       (rdiv (rsub (?obs ! i) (sim ! i)) (?err ! i))) [0..<?n]"
    using assms by (intro nth_equalityI) (auto simp: nth_butlast)
  then show ?thesis using b1 b2 by (simp add: chi2_sum_def)
qed

text \<open>
  Claim C5. When \<^verbatim>\<open>dc14\<close> returns a curve with one point less than the observation
  series, \<^verbatim>\<open>loss_chi2\<close> is, in machine arithmetic, 0.5 times the sum over the
  observation points but the last of the squared quotient of observed minus simulated
  value and uncertainty.
\<close>

theorem loss_chi2_formula:
  assumes "dc14 m s params = Inr sim"
      and "length sim = length (d14c_data s) - 1"
      and "length (d14c_data_error s) = length (d14c_data s)"
  shows "loss_chi2 m s params = Inr (chi2_formula m (d14c_data s) (d14c_data_error s) sim)"
  using assms(1) chi2_sum_aligned [OF assms(2,3)]
  by (simp add: loss_chi2_def chi2_formula_def)

lemma chi2_sum_gap: "chi2_sum toy_model fitter_gap [Fin 5, Fin 5] = Inr (Fin (73 / 4))"
  by (simp add: chi2_sum_def broadcast2_def fitter_gap_def loaded_gap_def toy_model_def
      rsub_def rdiv_def rmul_def radd_def fsub_def fround_numeral fround_neg_numeral fround_quarters)

lemma chi2_formula_gap:
  "chi2_formula toy_model (d14c_data fitter_gap) (d14c_data_error fitter_gap) [Fin 5, Fin 5] = Fin (73 / 8)"
  by (simp add: chi2_formula_def fitter_gap_def loaded_gap_def toy_model_def upt_rec
      rsub_def rdiv_def rmul_def radd_def fsub_def fround_numeral fround_neg_numeral fround_quarters)

lemma loss_gap: "loss_chi2 toy_model fitter_gap [Fin 1, Fin 2] = Inr (Fin (73 / 8))"
  by (simp add: loss_chi2_def dc14_gap chi2_sum_gap rmul_def fround_quarters)

theorem loss_chi2_formula_witness:
  "dc14 toy_model fitter_gap [Fin 1, Fin 2] = Inr [Fin 5, Fin 5] \<and>
   length (d14c_data fitter_gap) = 3 \<and> length (d14c_data_error fitter_gap) = 3 \<and>
   loss_chi2 toy_model fitter_gap [Fin 1, Fin 2] = Inr (Fin (73 / 8))"
proof -
  have l: "length (d14c_data fitter_gap) = 3" "length (d14c_data_error fitter_gap) = 3"
    by (simp_all add: fitter_gap_def loaded_gap_def)
  from loss_chi2_formula [OF dc14_gap] l
  have "loss_chi2 toy_model fitter_gap [Fin 1, Fin 2] = Inr (Fin (73 / 8))"
    by (simp add: chi2_formula_gap)
  then show ?thesis using dc14_gap l by simp
qed



text \<open>
  Claim C7. \<^verbatim>\<open>log_like\<close> is the negation of \<^verbatim>\<open>loss_chi2\<close> (and raises where it
  raises), and \<^verbatim>\<open>log_prob\<close> is the sum of \<^verbatim>\<open>log_prior\<close> and \<^verbatim>\<open>log_like\<close>.
\<close>

theorem log_like_log_prob:
  "log_like m s params = map_sum id fneg (loss_chi2 m s params) \<and>
   log_prob m s params = map_sum id (radd (log_prior params)) (log_like m s params)"
  by (simp add: log_like_def loss_chi2_def log_prob_def rmul_neg split: sum.splits)

theorem log_like_log_prob_witness:
  "log_like toy_model fitter_gap [Fin 1, Fin 2] = Inr (Fin (- (73 / 8))) \<and>
   log_prob toy_model fitter_gap [Fin 1, Fin 2] = Inr (Fin (- (73 / 8)))"
  using log_like_log_prob [of toy_model fitter_gap "[Fin 1, Fin 2]"]
  by (simp add: loss_gap log_prior_def fsum_def radd_def fround_quarters)




end
